theory Spec2Isabelle
  imports Main "HOL-Library.Product_Lexorder"
begin

section \<open>Data model (server/src/db/schema.ts)\<close>

text \<open>
  The tables of the SQLite database are lists of rows in rowid order. Columns keep the
  names of the schema; \<open>id\<close> and \<open>round\<close>-like names that several tables share are
  prefixed by the table. The TypeScript unions \<open>Game['round']\<close> and
  \<open>'AFC' | 'NFC'\<close> are datatypes.
\<close>

datatype round = WildCard | Divisional | Conference | SuperBowl

datatype conference = AFC | NFC

record game =
  game_id :: nat
  season_id :: nat
  round :: round
  game_number :: int
  team_home :: string
  team_away :: string
  seed_home :: "int option"
  seed_away :: "int option"
  winner :: "string option"
  espn_event_id :: "string option"
  completed :: bool
  is_actual_matchup :: bool

record playoff_seed =
  ps_id :: nat
  ps_season_id :: nat
  conference :: conference
  seed :: int
  team_abbr :: string

record participant =
  pt_id :: nat
  lobby_id :: string
  pt_name :: string
  submitted_at :: nat

record prediction =
  pr_id :: nat
  participant_id :: nat
  pr_game_id :: nat
  predicted_winner :: string
  predicted_opponent :: "string option"

datatype scoring_type = Simple | Weighted | Bracket | Both

text \<open>
  \<open>games_seq\<close> is the AUTOINCREMENT counter of the games table (its row in
  sqlite_sequence): a new id is above every id the table has ever used.
  \<open>submitted_at\<close> is a timestamp, compared as the DATETIME text is.
\<close>

record db =
  games :: "game list"
  games_seq :: nat
  playoff_seeds :: "playoff_seed list"
  participants :: "participant list"
  predictions :: "prediction list"

text \<open>
  A JavaScript exception is a value. The two \<open>throw new Error(...)\<close> of
  season.ts that the bracket code can raise have a constructor each; \<open>TypeError\<close> is
  the runtime's error for reading a property of \<open>undefined\<close>. The database has no
  transactions here (every statement is saved at once), so an exception leaves the writes
  made before it: both outcomes carry the database.
\<close>

datatype error = GameNotFound | NoSeedsDefined | SeedsIncomplete | TypeError

datatype outcome = Done db | Threw error db

fun final :: "outcome \<Rightarrow> db" where
  "final (Done d) = d"
| "final (Threw e d) = d"

definition andThen :: "outcome \<Rightarrow> (db \<Rightarrow> outcome) \<Rightarrow> outcome" where
  "andThen r f = (case r of Done d \<Rightarrow> f d | Threw e d \<Rightarrow> Threw e d)"

text \<open>JavaScript truthiness of a nullable string: \<open>null\<close> and \<open>''\<close> are falsy.\<close>

definition truthy :: "string option \<Rightarrow> bool" where
  "truthy w = (case w of None \<Rightarrow> False | Some s \<Rightarrow> s \<noteq> [])"

text \<open>\<open>xs[i]\<close> of a JavaScript array: \<open>undefined\<close> out of range.\<close>

definition nth_opt :: "'a list \<Rightarrow> nat \<Rightarrow> 'a option" where
  "nth_opt xs i = (if i < length xs then Some (xs ! i) else None)"

section \<open>Queries and statements (server/src/services/season.ts)\<close>

text \<open>
  \<open>ORDER BY round, game_number\<close>: the column \<open>round\<close> is TEXT, so the rounds come
  in the alphabetical order of their stored names.
\<close>

fun round_text_order :: "round \<Rightarrow> nat" where
  "round_text_order Conference = 0"
| "round_text_order Divisional = 1"
| "round_text_order SuperBowl = 2"
| "round_text_order WildCard = 3"

definition getGameById :: "db \<Rightarrow> nat \<Rightarrow> game option" where
  "getGameById d gid = find (\<lambda>g. game_id g = gid) (games d)"

definition getGamesBySeason :: "db \<Rightarrow> nat \<Rightarrow> game list" where
  "getGamesBySeason d seasonId =
     sort_key (\<lambda>g. (round_text_order (round g), game_number g))
       (filter (\<lambda>g. season_id g = seasonId) (games d))"

fun conference_text_order :: "conference \<Rightarrow> nat" where
  "conference_text_order AFC = 0"
| "conference_text_order NFC = 1"

definition getPlayoffSeeds :: "db \<Rightarrow> nat \<Rightarrow> playoff_seed list" where
  "getPlayoffSeeds d seasonId =
     sort_key (\<lambda>s. (conference_text_order (conference s), seed s))
       (filter (\<lambda>s. ps_season_id s = seasonId) (playoff_seeds d))"

text \<open>An \<open>UPDATE games SET ... WHERE ...\<close> rewrites the rows that match, in place.\<close>

definition update_games :: "(game \<Rightarrow> bool) \<Rightarrow> (game \<Rightarrow> game) \<Rightarrow> db \<Rightarrow> db" where
  "update_games cond f d = d\<lparr>games := map (\<lambda>g. if cond g then f g else g) (games d)\<rparr>"

text \<open>\<open>UPDATE games SET winner = ?, completed = 1 WHERE id = ?\<close>\<close>

definition sql_set_winner :: "string \<Rightarrow> nat \<Rightarrow> db \<Rightarrow> db" where
  "sql_set_winner w gid =
     update_games (\<lambda>g. game_id g = gid) (\<lambda>g. g\<lparr>winner := Some w, completed := True\<rparr>)"

text \<open>
  \<open>UPDATE games SET team_home = ?, team_away = ?, seed_home = ?, seed_away = ?,
  is_actual_matchup = 1, winner = NULL, completed = 0 WHERE id = ?\<close>
\<close>

definition sql_set_matchup_cleared ::
  "string \<Rightarrow> string \<Rightarrow> int option \<Rightarrow> int option \<Rightarrow> nat \<Rightarrow> db \<Rightarrow> db" where
  "sql_set_matchup_cleared teamHome teamAway seedHome seedAway gid =
     update_games (\<lambda>g. game_id g = gid)
       (\<lambda>g. g\<lparr>team_home := teamHome, team_away := teamAway, seed_home := seedHome,
              seed_away := seedAway, is_actual_matchup := True, winner := None,
              completed := False\<rparr>)"

text \<open>
  \<open>UPDATE games SET team_home = ?, team_away = ?, seed_home = ?, seed_away = ?,
  is_actual_matchup = 1 WHERE id = ?\<close>
\<close>

definition sql_set_matchup ::
  "string \<Rightarrow> string \<Rightarrow> int option \<Rightarrow> int option \<Rightarrow> nat \<Rightarrow> db \<Rightarrow> db" where
  "sql_set_matchup teamHome teamAway seedHome seedAway gid =
     update_games (\<lambda>g. game_id g = gid)
       (\<lambda>g. g\<lparr>team_home := teamHome, team_away := teamAway, seed_home := seedHome,
              seed_away := seedAway, is_actual_matchup := True\<rparr>)"

text \<open>\<open>UPDATE games SET winner = NULL, completed = 0 WHERE season_id = ? AND round = r\<close>\<close>

definition sql_clear_round :: "nat \<Rightarrow> round \<Rightarrow> db \<Rightarrow> db" where
  "sql_clear_round seasonId r =
     update_games (\<lambda>g. season_id g = seasonId \<and> round g = r)
       (\<lambda>g. g\<lparr>winner := None, completed := False\<rparr>)"

section \<open>The matchup updates (updateDivisionalGame, updateConferenceGame, updateSuperBowlGame)\<close>

text \<open>
  The \<open>game\<close> argument is an element of an array read at an index, so it may be
  \<open>undefined\<close>; reading \<open>game.team_home\<close> then throws. After a change,
  updateDivisionalGame reads the season of the row back with
  \<open>(await runQuery(...))[0].season_id\<close>, which throws when the row is gone.
\<close>

definition updateDivisionalGame ::
  "game option \<Rightarrow> string \<Rightarrow> string \<Rightarrow> int option \<Rightarrow> int option \<Rightarrow> db \<Rightarrow> outcome" where
  "updateDivisionalGame gameo teamHome teamAway seedHome seedAway d =
     (case gameo of
        None \<Rightarrow> Threw TypeError d
      | Some game \<Rightarrow>
          if team_home game \<noteq> teamHome \<or> team_away game \<noteq> teamAway then
            (let d1 = sql_set_matchup_cleared teamHome teamAway seedHome seedAway (game_id game) d
             in case getGameById d1 (game_id game) of
                  None \<Rightarrow> Threw TypeError d1
                | Some row \<Rightarrow>
                    Done (sql_clear_round (season_id row) SuperBowl
                           (sql_clear_round (season_id row) Conference d1)))
          else if \<not> is_actual_matchup game then
            Done (sql_set_matchup teamHome teamAway seedHome seedAway (game_id game) d)
          else Done d)"

text \<open>
  updateConferenceGame clears the final with
  \<open>WHERE season_id = (SELECT season_id FROM games WHERE id = ?) AND round = 'super_bowl'\<close>:
  a subquery without a row gives NULL, which matches no row.
\<close>

definition updateConferenceGame ::
  "game option \<Rightarrow> string \<Rightarrow> string \<Rightarrow> int option \<Rightarrow> int option \<Rightarrow> db \<Rightarrow> outcome" where
  "updateConferenceGame gameo teamHome teamAway seedHome seedAway d =
     (case gameo of
        None \<Rightarrow> Threw TypeError d
      | Some game \<Rightarrow>
          if team_home game \<noteq> teamHome \<or> team_away game \<noteq> teamAway then
            (let d1 = sql_set_matchup_cleared teamHome teamAway seedHome seedAway (game_id game) d
             in case getGameById d1 (game_id game) of
                  None \<Rightarrow> Done d1
                | Some row \<Rightarrow> Done (sql_clear_round (season_id row) SuperBowl d1))
          else if \<not> is_actual_matchup game then
            Done (sql_set_matchup teamHome teamAway seedHome seedAway (game_id game) d)
          else Done d)"

definition updateSuperBowlGame ::
  "game \<Rightarrow> string \<Rightarrow> string \<Rightarrow> int option \<Rightarrow> int option \<Rightarrow> db \<Rightarrow> outcome" where
  "updateSuperBowlGame game teamHome teamAway seedHome seedAway d =
     (if team_home game \<noteq> teamHome \<or> team_away game \<noteq> teamAway then
        Done (sql_set_matchup_cleared teamHome teamAway seedHome seedAway (game_id game) d)
      else if \<not> is_actual_matchup game then
        Done (sql_set_matchup teamHome teamAway seedHome seedAway (game_id game) d)
      else Done d)"

section \<open>The re-seeding engine (reseedPlayoffBracket)\<close>

definition isRoundComplete :: "game list \<Rightarrow> bool" where
  "isRoundComplete roundGames \<longleftrightarrow>
     roundGames \<noteq> [] \<and> list_all (\<lambda>g. completed g \<and> truthy (winner g)) roundGames"

definition getSeedForTeam :: "playoff_seed list \<Rightarrow> string \<Rightarrow> int option" where
  "getSeedForTeam seeds team = map_option seed (find (\<lambda>s. team_abbr s = team) seeds)"

text \<open>
  \<open>g.winner!\<close> only erases the type's \<open>null\<close>; every use below is behind a check
  that the winner is truthy, so the \<open>None\<close> branch is never taken.
\<close>

definition winner_team :: "game \<Rightarrow> string" where
  "winner_team g = (case winner g of Some w \<Rightarrow> w | None \<Rightarrow> [])"

text \<open>
  \<open>.sort((a, b) => a.seed - b.seed)\<close>: the sort is stable, and a \<open>null\<close> seed (a
  winner that is in no seed row) counts as 0 in the subtraction.
\<close>

definition seed_number :: "int option \<Rightarrow> int" where
  "seed_number s = (case s of None \<Rightarrow> 0 | Some n \<Rightarrow> n)"

definition sorted_winners :: "playoff_seed list \<Rightarrow> game list \<Rightarrow> (string \<times> int option) list" where
  "sorted_winners seeds gs =
     sort_key (\<lambda>w. seed_number (snd w))
       (map (\<lambda>g. (winner_team g, getSeedForTeam seeds (winner_team g))) gs)"

text \<open>
  The AFC and the NFC block of each step are the same code on different constants: the
  conference, the range of game numbers and the indices into the next round's array.
\<close>

definition reseedDivisional ::
  "playoff_seed list \<Rightarrow> conference \<Rightarrow> game list \<Rightarrow> game option \<Rightarrow> game option \<Rightarrow> db \<Rightarrow> outcome" where
  "reseedDivisional seeds conf confWildCardGames game1 game2 d =
     (if list_all (\<lambda>g. truthy (winner g)) confWildCardGames then
        (case find (\<lambda>s. conference s = conf \<and> seed s = 1) seeds of
           None \<Rightarrow> Threw TypeError d
         | Some seed1 \<Rightarrow>
             (case sorted_winners seeds confWildCardGames of
                w0 # w1 # w2 # _ \<Rightarrow>
                  andThen
                    (updateDivisionalGame game1 (team_abbr seed1) (fst w2) (Some 1) (snd w2) d)
                    (updateDivisionalGame game2 (fst w0) (fst w1) (snd w0) (snd w1))
              | _ \<Rightarrow> Threw TypeError d))
      else Done d)"

definition reseedConference ::
  "playoff_seed list \<Rightarrow> game list \<Rightarrow> game option \<Rightarrow> db \<Rightarrow> outcome" where
  "reseedConference seeds confDivisionalGames game d =
     (if list_all (\<lambda>g. truthy (winner g)) confDivisionalGames then
        (case sorted_winners seeds confDivisionalGames of
           w0 # w1 # _ \<Rightarrow> updateConferenceGame game (fst w0) (fst w1) (snd w0) (snd w1) d
         | _ \<Rightarrow> Threw TypeError d)
      else Done d)"

text \<open>
  \<open>if (isRoundComplete(conferenceGames) && superBowlGame)\<close>; then
  \<open>conferenceGames[1].winner\<close> throws when the round has a single game.
\<close>

definition reseedSuperBowl ::
  "playoff_seed list \<Rightarrow> game list \<Rightarrow> game option \<Rightarrow> db \<Rightarrow> outcome" where
  "reseedSuperBowl seeds conferenceGames superBowlGame d =
     (if isRoundComplete conferenceGames then
        (case superBowlGame of
           None \<Rightarrow> Done d
         | Some sb \<Rightarrow>
             (case conferenceGames of
                c0 # c1 # _ \<Rightarrow>
                  updateSuperBowlGame sb (winner_team c0) (winner_team c1)
                    (getSeedForTeam seeds (winner_team c0)) (getSeedForTeam seeds (winner_team c1)) d
              | _ \<Rightarrow> Threw TypeError d))
      else Done d)"

text \<open>
  The games are read once, at the start: the three steps decide on this snapshot, not on
  the rows as the earlier steps have left them.
\<close>

definition reseedPlayoffBracket :: "db \<Rightarrow> nat \<Rightarrow> outcome" where
  "reseedPlayoffBracket d seasonId =
     (let games = getGamesBySeason d seasonId;
          seeds = getPlayoffSeeds d seasonId;
          wildCardGames = filter (\<lambda>g. round g = WildCard) games;
          divisionalGames = filter (\<lambda>g. round g = Divisional) games;
          conferenceGames = filter (\<lambda>g. round g = Conference) games;
          superBowlGame = find (\<lambda>g. round g = SuperBowl) games;
          step1 = (\<lambda>d.
            if isRoundComplete wildCardGames then
              andThen
                (reseedDivisional seeds AFC
                   (filter (\<lambda>g. 1 \<le> game_number g \<and> game_number g \<le> 3) wildCardGames)
                   (nth_opt divisionalGames 0) (nth_opt divisionalGames 1) d)
                (reseedDivisional seeds NFC
                   (filter (\<lambda>g. 4 \<le> game_number g \<and> game_number g \<le> 6) wildCardGames)
                   (nth_opt divisionalGames 2) (nth_opt divisionalGames 3))
            else Done d);
          step2 = (\<lambda>d.
            if isRoundComplete divisionalGames then
              andThen
                (reseedConference seeds
                   (filter (\<lambda>g. 1 \<le> game_number g \<and> game_number g \<le> 2) divisionalGames)
                   (nth_opt conferenceGames 0) d)
                (reseedConference seeds
                   (filter (\<lambda>g. 3 \<le> game_number g \<and> game_number g \<le> 4) divisionalGames)
                   (nth_opt conferenceGames 1))
            else Done d);
          step3 = reseedSuperBowl seeds conferenceGames superBowlGame
      in andThen (andThen (step1 d) step2) step3)"

text \<open>updateGameWinner: the winner is written as given, then the bracket is re-seeded.\<close>

definition updateGameWinner :: "db \<Rightarrow> nat \<Rightarrow> string \<Rightarrow> outcome" where
  "updateGameWinner d gameId w =
     (case getGameById d gameId of
        None \<Rightarrow> Threw GameNotFound d
      | Some game \<Rightarrow> reseedPlayoffBracket (sql_set_winner w gameId d) (season_id game))"

section \<open>Bracket generation (generatePlayoffGamesFromSeeds)\<close>

text \<open>\<open>INSERT INTO games\<close>: the row gets the next AUTOINCREMENT id.\<close>

definition sql_insert_game :: "game \<Rightarrow> db \<Rightarrow> db" where
  "sql_insert_game row d =
     (let newId = Suc (fold max (map game_id (games d)) (games_seq d))
      in d\<lparr>games := games d @ [row\<lparr>game_id := newId\<rparr>], games_seq := newId\<rparr>)"

text \<open>\<open>DELETE FROM games WHERE season_id = ?\<close>\<close>

definition deleteAllGamesForSeason :: "nat \<Rightarrow> db \<Rightarrow> db" where
  "deleteAllGamesForSeason seasonId d =
     d\<lparr>games := filter (\<lambda>g. season_id g \<noteq> seasonId) (games d)\<rparr>"

text \<open>The columns an INSERT does not name take the defaults of the schema.\<close>

definition wild_card_row :: "nat \<Rightarrow> int \<Rightarrow> playoff_seed \<Rightarrow> playoff_seed \<Rightarrow> game" where
  "wild_card_row seasonId gameNumber home away =
     \<lparr>game_id = 0, season_id = seasonId, round = WildCard, game_number = gameNumber,
      team_home = team_abbr home, team_away = team_abbr away,
      seed_home = Some (seed home), seed_away = Some (seed away),
      winner = None, espn_event_id = None, completed = False, is_actual_matchup = True\<rparr>"

definition placeholder_row :: "nat \<Rightarrow> round \<Rightarrow> int \<Rightarrow> game" where
  "placeholder_row seasonId r gameNumber =
     \<lparr>game_id = 0, season_id = seasonId, round = r, game_number = gameNumber,
      team_home = ''TBD'', team_away = ''TBD'', seed_home = None, seed_away = None,
      winner = None, espn_event_id = None, completed = False, is_actual_matchup = False\<rparr>"

text \<open>
  generateWildCardGames reads \<open>confSeeds[1]\<close> to \<open>confSeeds[6]\<close>; the caller has
  checked the length, so the last branch is not reached from generatePlayoffGamesFromSeeds.
\<close>

definition generateWildCardGames :: "nat \<Rightarrow> playoff_seed list \<Rightarrow> int \<Rightarrow> db \<Rightarrow> outcome" where
  "generateWildCardGames seasonId confSeeds gameNumberOffset d =
     (case confSeeds of
        s1 # s2 # s3 # s4 # s5 # s6 # s7 # _ \<Rightarrow>
          Done (sql_insert_game (wild_card_row seasonId (gameNumberOffset + 2 + 1) s4 s5)
                 (sql_insert_game (wild_card_row seasonId (gameNumberOffset + 1 + 1) s3 s6)
                   (sql_insert_game (wild_card_row seasonId (gameNumberOffset + 0 + 1) s2 s7) d)))
      | _ \<Rightarrow> Threw TypeError d)"

definition generateDivisionalPlaceholders :: "nat \<Rightarrow> int \<Rightarrow> db \<Rightarrow> db" where
  "generateDivisionalPlaceholders seasonId gameNumberOffset d =
     sql_insert_game (placeholder_row seasonId Divisional (gameNumberOffset + 1 + 1))
       (sql_insert_game (placeholder_row seasonId Divisional (gameNumberOffset + 0 + 1)) d)"

definition generatePlayoffGamesFromSeeds :: "db \<Rightarrow> nat \<Rightarrow> outcome" where
  "generatePlayoffGamesFromSeeds d seasonId =
     (let seeds = getPlayoffSeeds d seasonId in
      if length seeds = 0 then Threw NoSeedsDefined d
      else
        let afcSeeds = sort_key seed (filter (\<lambda>s. conference s = AFC) seeds);
            nfcSeeds = sort_key seed (filter (\<lambda>s. conference s = NFC) seeds)
        in if length afcSeeds < 7 \<or> length nfcSeeds < 7 then Threw SeedsIncomplete d
           else
             andThen
               (andThen (generateWildCardGames seasonId afcSeeds 0 (deleteAllGamesForSeason seasonId d))
                  (generateWildCardGames seasonId nfcSeeds 3))
               (\<lambda>d. Done
                  (sql_insert_game (placeholder_row seasonId SuperBowl 1)
                    (sql_insert_game (placeholder_row seasonId Conference 2)
                      (sql_insert_game (placeholder_row seasonId Conference 1)
                        (generateDivisionalPlaceholders seasonId 2
                          (generateDivisionalPlaceholders seasonId 0 d)))))))"

section \<open>Leaderboard (server/src/services/leaderboard.ts)\<close>











section \<open>Definitions for the properties of the leaderboard\<close>







section \<open>Definitions for the properties of the re-seeding engine\<close>

text \<open>
  The statements compare the games table before and after a run row by row: every write of the
  engine is an UPDATE, so a row keeps its position, its id, its season, its round and its game
  number. The matchup composition of a game is its home/away pair; a game is cleared when its
  winner is NULL and completed is 0.
\<close>

definition same_key :: "game \<Rightarrow> game \<Rightarrow> bool" where
  "same_key g g' \<longleftrightarrow>
     game_id g' = game_id g \<and> season_id g' = season_id g \<and> round g' = round g \<and>
     game_number g' = game_number g \<and> espn_event_id g' = espn_event_id g"

definition same_teams :: "game \<Rightarrow> game \<Rightarrow> bool" where
  "same_teams g g' \<longleftrightarrow> team_home g' = team_home g \<and> team_away g' = team_away g"

definition same_matchup :: "game \<Rightarrow> game \<Rightarrow> bool" where
  "same_matchup g g' \<longleftrightarrow>
     same_teams g g' \<and> seed_home g' = seed_home g \<and> seed_away g' = seed_away g \<and>
     is_actual_matchup g' = is_actual_matchup g"

definition same_result :: "game \<Rightarrow> game \<Rightarrow> bool" where
  "same_result g g' \<longleftrightarrow> winner g' = winner g \<and> completed g' = completed g"

definition is_cleared :: "game \<Rightarrow> bool" where
  "is_cleared g \<longleftrightarrow> winner g = None \<and> \<not> completed g"

text \<open>
  \<open>teams_changed s r\<close>: some game of round \<open>r\<close> in season \<open>s\<close> has a different
  home/away pair after than before. \<open>round_cleared s r\<close>: every game of round \<open>r\<close> in
  season \<open>s\<close> is cleared.
\<close>

definition teams_changed :: "nat \<Rightarrow> round \<Rightarrow> game list \<Rightarrow> game list \<Rightarrow> bool" where
  "teams_changed s r gs gs' \<longleftrightarrow>
     list_ex (\<lambda>(g, g'). season_id g = s \<and> round g = r \<and> \<not> same_teams g g') (zip gs gs')"

definition round_cleared :: "nat \<Rightarrow> round \<Rightarrow> game list \<Rightarrow> bool" where
  "round_cleared s r gs \<longleftrightarrow> list_all (\<lambda>g. season_id g = s \<and> round g = r \<longrightarrow> is_cleared g) gs"

text \<open>
  The rounds strictly downstream of a round.
\<close>

fun downstream :: "round \<Rightarrow> round set" where
  "downstream WildCard = {Divisional, Conference, SuperBowl}"
| "downstream Divisional = {Conference, SuperBowl}"
| "downstream Conference = {SuperBowl}"
| "downstream SuperBowl = {}"

text \<open>
  A matchup as the engine passes it to an update: home, away, home seed, away seed.
  The three computations of reseedPlayoffBracket, taken out of the control flow: the pair of
  divisional matchups of one conference, the conference-round matchup of one conference, and
  the final. \<open>None\<close> is where the code reads a property of \<open>undefined\<close>.
\<close>

type_synonym matchup = "string \<times> string \<times> int option \<times> int option"

definition divisional_plan :: "playoff_seed list \<Rightarrow> conference \<Rightarrow> game list \<Rightarrow> (matchup \<times> matchup) option" where
  "divisional_plan seeds conf confWildCardGames =
     (case find (\<lambda>s. conference s = conf \<and> seed s = 1) seeds of
        None \<Rightarrow> None
      | Some seed1 \<Rightarrow>
          (case sorted_winners seeds confWildCardGames of
             w0 # w1 # w2 # _ \<Rightarrow>
               Some ((team_abbr seed1, fst w2, Some 1, snd w2), (fst w0, fst w1, snd w0, snd w1))
           | _ \<Rightarrow> None))"

definition conference_plan :: "playoff_seed list \<Rightarrow> game list \<Rightarrow> matchup option" where
  "conference_plan seeds confDivisionalGames =
     (case sorted_winners seeds confDivisionalGames of
        w0 # w1 # _ \<Rightarrow> Some (fst w0, fst w1, snd w0, snd w1)
      | _ \<Rightarrow> None)"

definition final_plan :: "playoff_seed list \<Rightarrow> game list \<Rightarrow> matchup option" where
  "final_plan seeds conferenceGames =
     (case conferenceGames of
        c0 # c1 # _ \<Rightarrow>
          Some (winner_team c0, winner_team c1,
                getSeedForTeam seeds (winner_team c0), getSeedForTeam seeds (winner_team c1))
      | _ \<Rightarrow> None)"

text \<open>
  The snapshot of one round that reseedPlayoffBracket filters out of the season's games, and
  its three steps as functions of the snapshot's database and the current one.
\<close>

definition round_games :: "db \<Rightarrow> nat \<Rightarrow> round \<Rightarrow> game list" where
  "round_games d s r = filter (\<lambda>g. round g = r) (getGamesBySeason d s)"

definition reseed_step1 :: "db \<Rightarrow> nat \<Rightarrow> db \<Rightarrow> outcome" where
  "reseed_step1 d0 s d =
     (if isRoundComplete (round_games d0 s WildCard) then
        andThen
          (reseedDivisional (getPlayoffSeeds d0 s) AFC
             (filter (\<lambda>g. 1 \<le> game_number g \<and> game_number g \<le> 3) (round_games d0 s WildCard))
             (nth_opt (round_games d0 s Divisional) 0) (nth_opt (round_games d0 s Divisional) 1) d)
          (reseedDivisional (getPlayoffSeeds d0 s) NFC
             (filter (\<lambda>g. 4 \<le> game_number g \<and> game_number g \<le> 6) (round_games d0 s WildCard))
             (nth_opt (round_games d0 s Divisional) 2) (nth_opt (round_games d0 s Divisional) 3))
      else Done d)"

definition reseed_step2 :: "db \<Rightarrow> nat \<Rightarrow> db \<Rightarrow> outcome" where
  "reseed_step2 d0 s d =
     (if isRoundComplete (round_games d0 s Divisional) then
        andThen
          (reseedConference (getPlayoffSeeds d0 s)
             (filter (\<lambda>g. 1 \<le> game_number g \<and> game_number g \<le> 2) (round_games d0 s Divisional))
             (nth_opt (round_games d0 s Conference) 0) d)
          (reseedConference (getPlayoffSeeds d0 s)
             (filter (\<lambda>g. 3 \<le> game_number g \<and> game_number g \<le> 4) (round_games d0 s Divisional))
             (nth_opt (round_games d0 s Conference) 1))
      else Done d)"

definition reseed_step3 :: "db \<Rightarrow> nat \<Rightarrow> db \<Rightarrow> outcome" where
  "reseed_step3 d0 s d =
     reseedSuperBowl (getPlayoffSeeds d0 s) (round_games d0 s Conference)
       (find (\<lambda>g. round g = SuperBowl) (getGamesBySeason d0 s)) d"

text \<open>
  What one matchup update does to a row of the current table, given the snapshot \<open>g0\<close> of
  its target: the three branches of updateDivisionalGame, updateConferenceGame and
  updateSuperBowlGame, with the cascade over the rounds downstream of the target's.
\<close>

definition changed :: "game \<Rightarrow> matchup \<Rightarrow> bool" where
  "changed g0 m \<longleftrightarrow> team_home g0 \<noteq> fst m \<or> team_away g0 \<noteq> fst (snd m)"

definition step_row :: "game \<Rightarrow> matchup \<Rightarrow> game \<Rightarrow> game" where
  "step_row g0 m g =
     (case m of (th, ta, sh, sa) \<Rightarrow>
        if team_home g0 \<noteq> th \<or> team_away g0 \<noteq> ta then
          (if game_id g = game_id g0 then
             g\<lparr>team_home := th, team_away := ta, seed_home := sh, seed_away := sa,
               is_actual_matchup := True, winner := None, completed := False\<rparr>
           else if season_id g = season_id g0 \<and> round g \<in> downstream (round g0) then
             g\<lparr>winner := None, completed := False\<rparr>
           else g)
        else if \<not> is_actual_matchup g0 then
          (if game_id g = game_id g0 then
             g\<lparr>team_home := th, team_away := ta, seed_home := sh, seed_away := sa,
               is_actual_matchup := True\<rparr>
           else g)
        else g)"

text \<open>
  The invariant of a run, between the table at the start (\<open>g\<close>) and the current table
  (\<open>g'\<close>). \<open>W\<close> maps the ids of the games updated so far to the matchup passed to
  their update; \<open>D\<close> and \<open>C\<close> say whether a divisional or a conference-round matchup
  of the season has changed so far. A row that was not updated keeps its matchup fields; a result
  is either kept or cleared, and it is cleared only by a changed matchup or by a cascade.
\<close>

definition cascaded :: "bool \<Rightarrow> bool \<Rightarrow> round \<Rightarrow> bool" where
  "cascaded D C r \<longleftrightarrow> (r = Conference \<and> D) \<or> (r = SuperBowl \<and> (D \<or> C))"

definition written :: "matchup \<Rightarrow> game \<Rightarrow> game \<Rightarrow> bool" where
  "written m g g' \<longleftrightarrow>
     (case m of (th, ta, sh, sa) \<Rightarrow>
        team_home g' = th \<and> team_away g' = ta \<and> is_actual_matchup g' \<and>
        (if team_home g = th \<and> team_away g = ta \<and> is_actual_matchup g
         then seed_home g' = seed_home g \<and> seed_away g' = seed_away g
         else seed_home g' = sh \<and> seed_away g' = sa))"

definition row_inv :: "nat \<Rightarrow> (nat \<rightharpoonup> matchup) \<Rightarrow> bool \<Rightarrow> bool \<Rightarrow> game \<Rightarrow> game \<Rightarrow> bool" where
  "row_inv s W D C g g' \<longleftrightarrow>
     same_key g g' \<and>
     (case W (game_id g) of
        None \<Rightarrow> same_matchup g g'
      | Some m \<Rightarrow> season_id g = s \<and> round g \<noteq> WildCard \<and> written m g g') \<and>
     (same_teams g g' \<longrightarrow>
        same_result g g' \<or> (is_cleared g' \<and> season_id g = s \<and> cascaded D C (round g))) \<and>
     (\<not> same_teams g g' \<longrightarrow> is_cleared g')"

definition engine_inv :: "nat \<Rightarrow> (nat \<rightharpoonup> matchup) \<Rightarrow> db \<Rightarrow> db \<Rightarrow> bool" where
  "engine_inv s W d0 d \<longleftrightarrow>
     playoff_seeds d = playoff_seeds d0 \<and> games_seq d = games_seq d0 \<and>
     participants d = participants d0 \<and> predictions d = predictions d0 \<and>
     list_all2 (row_inv s W (teams_changed s Divisional (games d0) (games d))
                            (teams_changed s Conference (games d0) (games d)))
       (games d0) (games d) \<and>
     (teams_changed s Divisional (games d0) (games d) \<longrightarrow>
        round_cleared s Conference (games d) \<and> round_cleared s SuperBowl (games d)) \<and>
     (teams_changed s Conference (games d0) (games d) \<longrightarrow> round_cleared s SuperBowl (games d))"

text \<open>
  Bookkeeping for the proofs: a target of an update that was not updated before, the record of
  an update, the rounds no update has touched, and the matchups a completed step has recorded.
\<close>

definition target :: "db \<Rightarrow> nat \<Rightarrow> round \<Rightarrow> (nat \<rightharpoonup> matchup) \<Rightarrow> game option \<Rightarrow> bool" where
  "target d0 s r W go \<longleftrightarrow>
     (\<forall>g. go = Some g \<longrightarrow>
        g \<in> set (games d0) \<and> season_id g = s \<and> round g = r \<and> W (game_id g) = None)"

definition wr :: "game option \<Rightarrow> matchup \<Rightarrow> (nat \<rightharpoonup> matchup) \<Rightarrow> (nat \<rightharpoonup> matchup)" where
  "wr go m W = (case go of None \<Rightarrow> W | Some g \<Rightarrow> W(game_id g \<mapsto> m))"

definition untouched_round :: "db \<Rightarrow> round \<Rightarrow> (nat \<rightharpoonup> matchup) \<Rightarrow> bool" where
  "untouched_round d0 r W \<longleftrightarrow> (\<forall>g \<in> set (games d0). round g = r \<longrightarrow> W (game_id g) = None)"

definition plan_written :: "(nat \<rightharpoonup> matchup) \<Rightarrow> game option \<Rightarrow> matchup \<Rightarrow> bool" where
  "plan_written W go m \<longleftrightarrow> (\<exists>g. go = Some g \<and> W (game_id g) = Some m)"

definition step1_written :: "(nat \<rightharpoonup> matchup) \<Rightarrow> db \<Rightarrow> nat \<Rightarrow> bool" where
  "step1_written W d0 s \<longleftrightarrow>
     (\<exists>a1 a2 n1 n2.
        divisional_plan (getPlayoffSeeds d0 s) AFC
          (filter (\<lambda>g. 1 \<le> game_number g \<and> game_number g \<le> 3) (round_games d0 s WildCard))
          = Some (a1, a2) \<and>
        divisional_plan (getPlayoffSeeds d0 s) NFC
          (filter (\<lambda>g. 4 \<le> game_number g \<and> game_number g \<le> 6) (round_games d0 s WildCard))
          = Some (n1, n2) \<and>
        plan_written W (nth_opt (round_games d0 s Divisional) 0) a1 \<and>
        plan_written W (nth_opt (round_games d0 s Divisional) 1) a2 \<and>
        plan_written W (nth_opt (round_games d0 s Divisional) 2) n1 \<and>
        plan_written W (nth_opt (round_games d0 s Divisional) 3) n2)"

definition step2_written :: "(nat \<rightharpoonup> matchup) \<Rightarrow> db \<Rightarrow> nat \<Rightarrow> bool" where
  "step2_written W d0 s \<longleftrightarrow>
     (\<exists>a n.
        conference_plan (getPlayoffSeeds d0 s)
          (filter (\<lambda>g. 1 \<le> game_number g \<and> game_number g \<le> 2) (round_games d0 s Divisional))
          = Some a \<and>
        conference_plan (getPlayoffSeeds d0 s)
          (filter (\<lambda>g. 3 \<le> game_number g \<and> game_number g \<le> 4) (round_games d0 s Divisional))
          = Some n \<and>
        plan_written W (nth_opt (round_games d0 s Conference) 0) a \<and>
        plan_written W (nth_opt (round_games d0 s Conference) 1) n)"

definition step3_written :: "(nat \<rightharpoonup> matchup) \<Rightarrow> db \<Rightarrow> nat \<Rightarrow> bool" where
  "step3_written W d0 s \<longleftrightarrow>
     (\<forall>g. find (\<lambda>g. round g = SuperBowl) (getGamesBySeason d0 s) = Some g \<longrightarrow>
        (\<exists>m. final_plan (getPlayoffSeeds d0 s) (round_games d0 s Conference) = Some m \<and>
             W (game_id g) = Some m))"

section \<open>Example states\<close>

definition mk_seed :: "nat \<Rightarrow> conference \<Rightarrow> int \<Rightarrow> string \<Rightarrow> playoff_seed" where
  "mk_seed i c n t = \<lparr>ps_id = i, ps_season_id = 1, conference = c, seed = n, team_abbr = t\<rparr>"

definition example_seeds :: "playoff_seed list" where
  "example_seeds =
     [mk_seed 1 AFC 1 ''KC'', mk_seed 2 AFC 2 ''BUF'', mk_seed 3 AFC 3 ''BAL'', mk_seed 4 AFC 4 ''HOU'',
      mk_seed 5 AFC 5 ''CLE'', mk_seed 6 AFC 6 ''MIA'', mk_seed 7 AFC 7 ''PIT'',
      mk_seed 8 NFC 1 ''SF'', mk_seed 9 NFC 2 ''DAL'', mk_seed 10 NFC 3 ''DET'', mk_seed 11 NFC 4 ''TB'',
      mk_seed 12 NFC 5 ''PHI'', mk_seed 13 NFC 6 ''LAR'', mk_seed 14 NFC 7 ''GB'']"

definition mk_game ::
  "nat \<Rightarrow> round \<Rightarrow> int \<Rightarrow> string \<Rightarrow> string \<Rightarrow> int \<Rightarrow> int \<Rightarrow> string \<Rightarrow> game" where
  "mk_game i r n h a sh sa w =
     \<lparr>game_id = i, season_id = 1, round = r, game_number = n, team_home = h, team_away = a,
      seed_home = Some sh, seed_away = Some sa, winner = Some w, espn_event_id = None,
      completed = True, is_actual_matchup = True\<rparr>"

text \<open>
  A season in which every round is decided and the better seed has always won (the seeds of
  createTestSeason, with team abbreviations).
\<close>

definition decided_games :: "game list" where
  "decided_games =
     [mk_game 1 WildCard 1 ''BUF'' ''PIT'' 2 7 ''BUF'',
      mk_game 2 WildCard 2 ''BAL'' ''MIA'' 3 6 ''BAL'',
      mk_game 3 WildCard 3 ''HOU'' ''CLE'' 4 5 ''HOU'',
      mk_game 4 WildCard 4 ''DAL'' ''GB'' 2 7 ''DAL'',
      mk_game 5 WildCard 5 ''DET'' ''LAR'' 3 6 ''DET'',
      mk_game 6 WildCard 6 ''TB'' ''PHI'' 4 5 ''TB'',
      mk_game 7 Divisional 1 ''KC'' ''HOU'' 1 4 ''KC'',
      mk_game 8 Divisional 2 ''BUF'' ''BAL'' 2 3 ''BUF'',
      mk_game 9 Divisional 3 ''SF'' ''TB'' 1 4 ''SF'',
      mk_game 10 Divisional 4 ''DAL'' ''DET'' 2 3 ''DAL'',
      mk_game 11 Conference 1 ''KC'' ''BUF'' 1 2 ''KC'',
      mk_game 12 Conference 2 ''SF'' ''DAL'' 1 2 ''SF'',
      mk_game 13 SuperBowl 1 ''KC'' ''SF'' 1 1 ''KC'']"

definition mk_pick :: "nat \<Rightarrow> nat \<Rightarrow> nat \<Rightarrow> string \<Rightarrow> prediction" where
  "mk_pick i p g w =
     \<lparr>pr_id = i, participant_id = p, pr_game_id = g, predicted_winner = w, predicted_opponent = None\<rparr>"

text \<open>
  Lobby A has one participant who picked every winner; lobby B has two participants with one
  correct pick each, alice in the wild-card round and bob in the divisional round.
\<close>

definition example_db :: db where
  "example_db =
     \<lparr>games = decided_games, games_seq = 13, playoff_seeds = example_seeds,
      participants =
        [\<lparr>pt_id = 1, lobby_id = ''A'', pt_name = ''carol'', submitted_at = 1\<rparr>,
         \<lparr>pt_id = 2, lobby_id = ''B'', pt_name = ''alice'', submitted_at = 2\<rparr>,
         \<lparr>pt_id = 3, lobby_id = ''B'', pt_name = ''bob'', submitted_at = 3\<rparr>],
      predictions =
        [mk_pick 1 1 1 ''BUF'', mk_pick 2 1 2 ''BAL'', mk_pick 3 1 3 ''HOU'', mk_pick 4 1 4 ''DAL'',
         mk_pick 5 1 5 ''DET'', mk_pick 6 1 6 ''TB'', mk_pick 7 1 7 ''KC'', mk_pick 8 1 8 ''BUF'',
         mk_pick 9 1 9 ''SF'', mk_pick 10 1 10 ''DAL'', mk_pick 11 1 11 ''KC'', mk_pick 12 1 12 ''SF'',
         mk_pick 13 1 13 ''KC'',
         mk_pick 14 2 1 ''BUF'', mk_pick 15 2 7 ''HOU'',
         mk_pick 16 3 1 ''PIT'', mk_pick 17 3 7 ''KC'']\<rparr>"



text \<open>
  The bracket as generatePlayoffGamesFromSeeds creates it from the example seeds, and the same
  bracket after five of the six wild-card games have been decided.
\<close>

definition mk_wild_card :: "nat \<Rightarrow> int \<Rightarrow> string \<Rightarrow> string \<Rightarrow> int \<Rightarrow> int \<Rightarrow> string option \<Rightarrow> game" where
  "mk_wild_card i n h a sh sa w =
     \<lparr>game_id = i, season_id = 1, round = WildCard, game_number = n, team_home = h, team_away = a,
      seed_home = Some sh, seed_away = Some sa, winner = w, espn_event_id = None,
      completed = (w \<noteq> None), is_actual_matchup = True\<rparr>"

definition mk_placeholder :: "nat \<Rightarrow> round \<Rightarrow> int \<Rightarrow> game" where
  "mk_placeholder i r n = (placeholder_row 1 r n)\<lparr>game_id := i\<rparr>"

definition placeholder_games :: "game list" where
  "placeholder_games =
     [mk_placeholder 7 Divisional 1, mk_placeholder 8 Divisional 2, mk_placeholder 9 Divisional 3,
      mk_placeholder 10 Divisional 4, mk_placeholder 11 Conference 1, mk_placeholder 12 Conference 2,
      mk_placeholder 13 SuperBowl 1]"

definition fresh_db :: db where
  "fresh_db =
     \<lparr>games =
        [mk_wild_card 1 1 ''BUF'' ''PIT'' 2 7 None, mk_wild_card 2 2 ''BAL'' ''MIA'' 3 6 None,
         mk_wild_card 3 3 ''HOU'' ''CLE'' 4 5 None, mk_wild_card 4 4 ''DAL'' ''GB'' 2 7 None,
         mk_wild_card 5 5 ''DET'' ''LAR'' 3 6 None, mk_wild_card 6 6 ''TB'' ''PHI'' 4 5 None]
        @ placeholder_games,
      games_seq = 13, playoff_seeds = example_seeds, participants = [], predictions = []\<rparr>"

definition partial_db :: db where
  "partial_db =
     \<lparr>games =
        [mk_wild_card 1 1 ''BUF'' ''PIT'' 2 7 (Some ''BUF''), mk_wild_card 2 2 ''BAL'' ''MIA'' 3 6 (Some ''BAL''),
         mk_wild_card 3 3 ''HOU'' ''CLE'' 4 5 (Some ''HOU''), mk_wild_card 4 4 ''DAL'' ''GB'' 2 7 (Some ''DAL''),
         mk_wild_card 5 5 ''DET'' ''LAR'' 3 6 (Some ''DET''), mk_wild_card 6 6 ''TB'' ''PHI'' 4 5 None]
        @ placeholder_games,
      games_seq = 13, playoff_seeds = example_seeds, participants = [], predictions = []\<rparr>"

text \<open>
  The decided season in which the winner of the third wild-card game has just been rewritten
  from HOU to CLE, before the re-seeding has run.
\<close>

definition rewritten_db :: db where
  "rewritten_db = sql_set_winner ''CLE'' 3 example_db"

section \<open>Properties of the leaderboard\<close>
























section \<open>Properties of the re-seeding engine\<close>

lemma row_inv_mono:
  "row_inv s W D C g g' \<Longrightarrow> (D \<longrightarrow> D') \<Longrightarrow> (C \<longrightarrow> C') \<Longrightarrow> row_inv s W D' C' g g'"
  by (auto simp: row_inv_def cascaded_def)

lemma row_inv_upd_other:
  "game_id g \<noteq> x \<Longrightarrow> row_inv s (W(x \<mapsto> m)) D C g g' = row_inv s W D C g g'"
  by (simp add: row_inv_def)

lemma row_inv_clear:
  assumes "row_inv s W D C g g'" and "season_id g = s" and "cascaded D C (round g)"
  shows "row_inv s W D C g (g'\<lparr>winner := None, completed := False\<rparr>)"
proof -
  have k: "same_key g (g'\<lparr>winner := None, completed := False\<rparr>) = same_key g g'"
    by (simp add: same_key_def)
  have t: "same_teams g (g'\<lparr>winner := None, completed := False\<rparr>) = same_teams g g'"
    by (simp add: same_teams_def)
  have m: "same_matchup g (g'\<lparr>winner := None, completed := False\<rparr>) = same_matchup g g'"
    by (simp add: same_matchup_def same_teams_def)
  have w: "written x g (g'\<lparr>winner := None, completed := False\<rparr>) = written x g g'" for x
    by (simp add: written_def split: prod.splits)
  have c: "is_cleared (g'\<lparr>winner := None, completed := False\<rparr>)"
    by (simp add: is_cleared_def)
  show ?thesis
    using assms unfolding row_inv_def k t m w by (simp add: c)
qed

lemma cascaded_downstream:
  assumes "r' \<in> downstream r" and "r \<noteq> WildCard"
      and "r = Divisional \<longrightarrow> D" and "r = Conference \<longrightarrow> C"
  shows "cascaded D C r'"
  using assms by (cases r) (auto simp: cascaded_def)

lemma row_step_target:
  assumes inv: "row_inv s W D C g0 g'"
      and W: "W (game_id g0) = None"
      and s: "season_id g0 = s" and r: "round g0 \<noteq> WildCard"
      and D: "D \<longrightarrow> D'" and C: "C \<longrightarrow> C'"
  shows "row_inv s (W(game_id g0 \<mapsto> m)) D' C' g0 (step_row g0 m g')"
proof -
  obtain th ta sh sa where m: "m = (th, ta, sh, sa)" by (cases m) auto
  from inv W have k: "same_key g0 g'" and sm: "same_matchup g0 g'"
    and res: "same_result g0 g' \<or> (is_cleared g' \<and> cascaded D C (round g0))"
    by (auto simp: row_inv_def same_matchup_def)
  from res D C have res': "same_result g0 g' \<or> (is_cleared g' \<and> cascaded D' C' (round g0))"
    by (auto simp: cascaded_def)
  consider (changed) "team_home g0 \<noteq> th \<or> team_away g0 \<noteq> ta"
    | (placeholder) "team_home g0 = th" "team_away g0 = ta" "\<not> is_actual_matchup g0"
    | (same) "team_home g0 = th" "team_away g0 = ta" "is_actual_matchup g0"
    by blast
  then show ?thesis
  proof cases
    case changed
    then have "step_row g0 m g' = g'\<lparr>team_home := th, team_away := ta, seed_home := sh, seed_away := sa,
               is_actual_matchup := True, winner := None, completed := False\<rparr>"
      using k by (simp add: step_row_def m same_key_def)
    then show ?thesis using changed k s r
      by (auto simp: row_inv_def m same_key_def same_teams_def written_def is_cleared_def)
  next
    case placeholder
    then have "step_row g0 m g' = g'\<lparr>team_home := th, team_away := ta, seed_home := sh, seed_away := sa,
               is_actual_matchup := True\<rparr>"
      using k by (simp add: step_row_def m same_key_def)
    then show ?thesis using placeholder k s r res'
      by (auto simp: row_inv_def m same_key_def same_teams_def written_def is_cleared_def same_result_def)
  next
    case same
    then have "step_row g0 m g' = g'" by (simp add: step_row_def m)
    then show ?thesis using same k s r res' sm
      by (auto simp: row_inv_def m same_teams_def written_def same_matchup_def)
  qed
qed

lemma row_step_other:
  assumes inv: "row_inv s W D C g g'"
      and ne: "game_id g \<noteq> game_id g0"
      and s: "season_id g0 = s" and r: "round g0 \<noteq> WildCard"
      and D: "D \<longrightarrow> D'" and C: "C \<longrightarrow> C'"
      and ch: "team_home g0 \<noteq> fst m \<or> team_away g0 \<noteq> fst (snd m) \<Longrightarrow>
                 (round g0 = Divisional \<longrightarrow> D') \<and> (round g0 = Conference \<longrightarrow> C')"
  shows "row_inv s (W(game_id g0 \<mapsto> m)) D' C' g (step_row g0 m g')"
proof -
  obtain th ta sh sa where m: "m = (th, ta, sh, sa)" by (cases m) auto
  from inv have k: "same_key g g'" by (simp add: row_inv_def)
  then have ne': "game_id g' \<noteq> game_id g0" using ne by (simp add: same_key_def)
  have inv': "row_inv s W D' C' g g'" using inv D C by (rule row_inv_mono)
  show ?thesis
  proof (cases "(team_home g0 \<noteq> th \<or> team_away g0 \<noteq> ta) \<and>
                season_id g' = season_id g0 \<and> round g' \<in> downstream (round g0)")
    case True
    then have eq: "step_row g0 m g' = g'\<lparr>winner := None, completed := False\<rparr>"
      using ne' by (simp add: step_row_def m)
    from True ch have "(round g0 = Divisional \<longrightarrow> D') \<and> (round g0 = Conference \<longrightarrow> C')"
      by (simp add: m)
    with True r k have "cascaded D' C' (round g)"
      by (intro cascaded_downstream[of _ "round g0"]) (auto simp: same_key_def)
    moreover have "season_id g = s" using True k s by (simp add: same_key_def)
    ultimately have "row_inv s W D' C' g (g'\<lparr>winner := None, completed := False\<rparr>)"
      using inv' by (intro row_inv_clear)
    then show ?thesis using ne by (simp add: eq row_inv_upd_other)
  next
    case False
    then have "step_row g0 m g' = g'" using ne' by (auto simp: step_row_def m)
    then show ?thesis using inv' ne by (simp add: row_inv_upd_other)
  qed
qed

lemma step_row_key [simp]:
  "game_id (step_row g0 m g) = game_id g" "season_id (step_row g0 m g) = season_id g"
  "round (step_row g0 m g) = round g" "game_number (step_row g0 m g) = game_number g"
  "espn_event_id (step_row g0 m g) = espn_event_id g"
  by (auto simp: step_row_def split: prod.splits)

lemma step_row_teams_other:
  "game_id g' \<noteq> game_id g0 \<Longrightarrow> same_teams g (step_row g0 m g') = same_teams g g'"
  by (auto simp: step_row_def same_teams_def split: prod.splits)

lemma step_row_keeps_cleared: "is_cleared g' \<Longrightarrow> is_cleared (step_row g0 m g')"
  by (auto simp: step_row_def is_cleared_def split: prod.splits)

lemma step_row_target_teams:
  "game_id g' = game_id g0 \<Longrightarrow> same_teams g0 g' \<Longrightarrow>
   same_teams g0 (step_row g0 m g') \<longleftrightarrow> \<not> changed g0 m"
  by (auto simp: step_row_def same_teams_def changed_def split: prod.splits)

lemma step_row_cascade:
  "changed g0 m \<Longrightarrow> season_id g' = season_id g0 \<Longrightarrow> round g' \<in> downstream (round g0) \<Longrightarrow>
   is_cleared (step_row g0 m g')"
  by (auto simp: step_row_def is_cleared_def changed_def split: prod.splits)

lemma teams_changed_iff:
  "teams_changed s r gs gs' \<longleftrightarrow>
     (\<exists>(g, g') \<in> set (zip gs gs'). season_id g = s \<and> round g = r \<and> \<not> same_teams g g')"
  by (simp add: teams_changed_def list_ex_iff)

lemma round_cleared_iff:
  "round_cleared s r gs \<longleftrightarrow> (\<forall>g \<in> set gs. season_id g = s \<and> round g = r \<longrightarrow> is_cleared g)"
  by (simp add: round_cleared_def list_all_iff)

lemma distinct_id_eq:
  "distinct (map game_id gs) \<Longrightarrow> g \<in> set gs \<Longrightarrow> h \<in> set gs \<Longrightarrow> game_id g = game_id h \<Longrightarrow> g = h"
  by (meson distinct_map inj_onD)

lemma engine_step:
  assumes inv: "engine_inv s W d0 d"
      and dist: "distinct (map game_id (games d0))"
      and g0: "g0 \<in> set (games d0)" "season_id g0 = s" "round g0 \<noteq> WildCard"
      and W: "W (game_id g0) = None"
  shows "engine_inv s (W(game_id g0 \<mapsto> m)) d0 (d\<lparr>games := map (step_row g0 m) (games d)\<rparr>)"
proof -
  let ?old = "games d0"
  let ?cur = "games d"
  let ?new = "map (step_row g0 m) (games d)"
  let ?D = "teams_changed s Divisional ?old ?cur"
  let ?C = "teams_changed s Conference ?old ?cur"
  let ?D' = "teams_changed s Divisional ?old ?new"
  let ?C' = "teams_changed s Conference ?old ?new"
  from inv have rows: "list_all2 (row_inv s W ?D ?C) ?old ?cur"
    and G2: "?D \<longrightarrow> round_cleared s Conference ?cur \<and> round_cleared s SuperBowl ?cur"
    and G3: "?C \<longrightarrow> round_cleared s SuperBowl ?cur"
    by (simp_all add: engine_inv_def)
  have pair: "row_inv s W ?D ?C g g'" "g \<in> set ?old" "g' \<in> set ?cur"
    if "(g, g') \<in> set (zip ?old ?cur)" for g g'
    using that rows by (auto simp: list_all2_iff dest: set_zip_leftD set_zip_rightD)
  have key: "same_key g g'" if "(g, g') \<in> set (zip ?old ?cur)" for g g'
    using pair(1)[OF that] by (simp add: row_inv_def)
  have target: "g = g0" if "(g, g') \<in> set (zip ?old ?cur)" "game_id g' = game_id g0" for g g'
    using that key[OF that(1)] pair(2)[OF that(1)] g0(1) dist
    by (auto simp: same_key_def intro: distinct_id_eq)
  have target_teams: "same_teams g0 g'" if "(g0, g') \<in> set (zip ?old ?cur)" for g'
    using pair(1)[OF that] W by (simp add: row_inv_def same_matchup_def)
  have zip': "zip ?old ?new = map (\<lambda>(g, g'). (g, step_row g0 m g')) (zip ?old ?cur)"
    by (simp add: zip_map2)
  have new_changed: "(\<not> same_teams g (step_row g0 m g')) =
       ((\<not> same_teams g g') \<or> (g = g0 \<and> changed g0 m))"
    if z: "(g, g') \<in> set (zip ?old ?cur)" for g g'
  proof (cases "game_id g' = game_id g0")
    case True
    with z have e: "g = g0" by (rule target)
    with z True show ?thesis
      using step_row_target_teams[OF True, of m] target_teams[of g'] by auto
  next
    case False
    moreover from False key[OF z] have "g \<noteq> g0" by (auto simp: same_key_def)
    ultimately show ?thesis by (simp add: step_row_teams_other)
  qed
  have chg: "teams_changed s r ?old ?new \<longleftrightarrow>
       teams_changed s r ?old ?cur \<or> (round g0 = r \<and> changed g0 m)" for r
  proof -
    obtain g0' where z0: "(g0, g0') \<in> set (zip ?old ?cur)"
    proof -
      from g0(1) obtain i where "i < length ?old" "?old ! i = g0" by (auto simp: in_set_conv_nth)
      moreover from rows have "length ?old = length ?cur" by (rule list_all2_lengthD)
      ultimately have "(g0, ?cur ! i) \<in> set (zip ?old ?cur)"
        by (auto simp: set_zip)
      then show ?thesis by (rule that)
    qed
    have in_new: "(g, n) \<in> set (zip ?old ?new) \<longleftrightarrow>
        (\<exists>g'. (g, g') \<in> set (zip ?old ?cur) \<and> n = step_row g0 m g')" for g n
      unfolding zip' by force
    show ?thesis
    proof
      assume "teams_changed s r ?old ?new"
      then obtain g n where gn: "(g, n) \<in> set (zip ?old ?new)" "season_id g = s" "round g = r"
        "\<not> same_teams g n"
        unfolding teams_changed_iff by blast
      then obtain g' where g': "(g, g') \<in> set (zip ?old ?cur)" "n = step_row g0 m g'"
        unfolding in_new by blast
      have "\<not> same_teams g g' \<or> (g = g0 \<and> changed g0 m)"
        using gn(4) g'(2) new_changed[OF g'(1)] by blast
      with gn g' show "teams_changed s r ?old ?cur \<or> (round g0 = r \<and> changed g0 m)"
        unfolding teams_changed_iff by blast
    next
      assume "teams_changed s r ?old ?cur \<or> (round g0 = r \<and> changed g0 m)"
      then show "teams_changed s r ?old ?new"
      proof
        assume "teams_changed s r ?old ?cur"
        then obtain g g' where gg: "(g, g') \<in> set (zip ?old ?cur)" "season_id g = s" "round g = r"
          "\<not> same_teams g g'"
          unfolding teams_changed_iff by blast
        then have "\<not> same_teams g (step_row g0 m g')" using new_changed[OF gg(1)] by blast
        moreover have "(g, step_row g0 m g') \<in> set (zip ?old ?new)"
          unfolding in_new using gg(1) by blast
        ultimately show ?thesis unfolding teams_changed_iff using gg by blast
      next
        assume a: "round g0 = r \<and> changed g0 m"
        then have "\<not> same_teams g0 (step_row g0 m g0')" using new_changed[OF z0] by blast
        moreover have "(g0, step_row g0 m g0') \<in> set (zip ?old ?new)"
          unfolding in_new using z0 by blast
        ultimately show ?thesis unfolding teams_changed_iff using a g0(2) by blast
      qed
    qed
  qed
  have D: "?D \<longrightarrow> ?D'" and C: "?C \<longrightarrow> ?C'" using chg by blast+
  have ch: "(round g0 = Divisional \<longrightarrow> ?D') \<and> (round g0 = Conference \<longrightarrow> ?C')"
    if "team_home g0 \<noteq> fst m \<or> team_away g0 \<noteq> fst (snd m)"
    using that chg by (auto simp: changed_def)
  have rows': "list_all2 (row_inv s (W(game_id g0 \<mapsto> m)) ?D' ?C') ?old ?new"
    unfolding list_all2_map2
  proof (rule list.rel_mono_strong[OF rows])
    fix g g'
    assume g: "g \<in> set ?old" and ri: "row_inv s W ?D ?C g g'"
    show "row_inv s (W(game_id g0 \<mapsto> m)) ?D' ?C' g (step_row g0 m g')"
    proof (cases "game_id g = game_id g0")
      case True
      with g g0(1) dist have "g = g0" by (auto intro: distinct_id_eq)
      with ri W g0 D C show ?thesis by (auto intro: row_step_target)
    next
      case False
      from ri False g0(2,3) D C ch show ?thesis by (rule row_step_other)
    qed
  qed
  have keep: "round_cleared s r ?new" if "round_cleared s r ?cur" for r
    using that by (auto simp: round_cleared_iff step_row_keeps_cleared)
  have casc: "round_cleared s r ?new" if "changed g0 m" "r \<in> downstream (round g0)" for r
    using that g0(2) by (auto simp: round_cleared_iff intro: step_row_cascade)
  have G2': "?D' \<longrightarrow> round_cleared s Conference ?new \<and> round_cleared s SuperBowl ?new"
  proof
    assume "?D'"
    then consider "?D" | "round g0 = Divisional" "changed g0 m" using chg by blast
    then show "round_cleared s Conference ?new \<and> round_cleared s SuperBowl ?new"
    proof cases
      case 1 with G2 keep show ?thesis by blast
    next
      case 2 then show ?thesis using casc by simp
    qed
  qed
  have G3': "?C' \<longrightarrow> round_cleared s SuperBowl ?new"
  proof
    assume "?C'"
    then consider "?C" | "round g0 = Conference" "changed g0 m" using chg by blast
    then show "round_cleared s SuperBowl ?new"
    proof cases
      case 1 with G3 keep show ?thesis by blast
    next
      case 2 then show ?thesis using casc by simp
    qed
  qed
  from inv rows' G2' G3' show ?thesis by (simp add: engine_inv_def)
qed

lemma find_id_Some:
  "\<exists>row \<in> set gs. game_id row = x \<Longrightarrow> \<exists>row. find (\<lambda>g. game_id g = x) gs = Some row \<and> row \<in> set gs \<and> game_id row = x"
  by (cases "find (\<lambda>g. game_id g = x) gs") (auto simp: find_None_iff find_Some_iff)

lemma ids_set_matchup_cleared:
  "map game_id (games (sql_set_matchup_cleared th ta sh sa x d)) = map game_id (games d)"
  by (simp add: sql_set_matchup_cleared_def update_games_def comp_def if_distrib cong: if_cong)

lemma ex_id_iff:
  "(\<exists>row \<in> set gs. game_id row = x) \<longleftrightarrow> x \<in> set (map game_id gs)"
  by auto

lemma step_row_noop:
  "team_home g0 = th \<Longrightarrow> team_away g0 = ta \<Longrightarrow> is_actual_matchup g0 \<Longrightarrow>
   map (step_row g0 (th, ta, sh, sa)) gs = gs"
  by (rule map_idI) (simp add: step_row_def)

lemma step_row_placeholder:
  "team_home g0 = th \<Longrightarrow> team_away g0 = ta \<Longrightarrow> \<not> is_actual_matchup g0 \<Longrightarrow>
   step_row g0 (th, ta, sh, sa) =
     (\<lambda>g. if game_id g = game_id g0
          then g\<lparr>team_home := th, team_away := ta, seed_home := sh, seed_away := sa,
                 is_actual_matchup := True\<rparr>
          else g)"
  by (simp add: step_row_def fun_eq_iff)

lemma updateDivisionalGame_step:
  assumes ex: "\<exists>row \<in> set (games d). game_id row = game_id g0"
      and se: "\<forall>row \<in> set (games d). game_id row = game_id g0 \<longrightarrow> season_id row = season_id g0"
      and r: "round g0 = Divisional"
  shows "updateDivisionalGame (Some g0) th ta sh sa d =
           Done (d\<lparr>games := map (step_row g0 (th, ta, sh, sa)) (games d)\<rparr>)"
proof (cases "team_home g0 \<noteq> th \<or> team_away g0 \<noteq> ta")
  case True
  let ?d1 = "sql_set_matchup_cleared th ta sh sa (game_id g0) d"
  have "\<exists>row \<in> set (games ?d1). game_id row = game_id g0"
    using ex unfolding ex_id_iff ids_set_matchup_cleared .
  from find_id_Some[OF this] obtain row where
    row: "getGameById ?d1 (game_id g0) = Some row" "row \<in> set (games ?d1)" "game_id row = game_id g0"
    by (auto simp: getGameById_def)
  have "season_id row = season_id g0"
    using row(2,3) se by (auto simp: sql_set_matchup_cleared_def update_games_def split: if_splits)
  then show ?thesis using True row(1) r
    by (auto simp: updateDivisionalGame_def Let_def sql_clear_round_def update_games_def
        sql_set_matchup_cleared_def step_row_def)
next
  case False
  then show ?thesis
    by (cases "is_actual_matchup g0")
       (simp_all add: updateDivisionalGame_def sql_set_matchup_def update_games_def
          step_row_noop step_row_placeholder)
qed

lemma updateConferenceGame_step:
  assumes ex: "\<exists>row \<in> set (games d). game_id row = game_id g0"
      and se: "\<forall>row \<in> set (games d). game_id row = game_id g0 \<longrightarrow> season_id row = season_id g0"
      and r: "round g0 = Conference"
  shows "updateConferenceGame (Some g0) th ta sh sa d =
           Done (d\<lparr>games := map (step_row g0 (th, ta, sh, sa)) (games d)\<rparr>)"
proof (cases "team_home g0 \<noteq> th \<or> team_away g0 \<noteq> ta")
  case True
  let ?d1 = "sql_set_matchup_cleared th ta sh sa (game_id g0) d"
  have "\<exists>row \<in> set (games ?d1). game_id row = game_id g0"
    using ex unfolding ex_id_iff ids_set_matchup_cleared .
  from find_id_Some[OF this] obtain row where
    row: "getGameById ?d1 (game_id g0) = Some row" "row \<in> set (games ?d1)" "game_id row = game_id g0"
    by (auto simp: getGameById_def)
  have "season_id row = season_id g0"
    using row(2,3) se by (auto simp: sql_set_matchup_cleared_def update_games_def split: if_splits)
  then show ?thesis using True row(1) r
    by (auto simp: updateConferenceGame_def Let_def sql_clear_round_def update_games_def
        sql_set_matchup_cleared_def step_row_def)
next
  case False
  then show ?thesis
    by (cases "is_actual_matchup g0")
       (simp_all add: updateConferenceGame_def sql_set_matchup_def update_games_def
          step_row_noop step_row_placeholder)
qed

lemma updateSuperBowlGame_step:
  assumes r: "round g0 = SuperBowl"
  shows "updateSuperBowlGame g0 th ta sh sa d =
           Done (d\<lparr>games := map (step_row g0 (th, ta, sh, sa)) (games d)\<rparr>)"
proof (cases "team_home g0 \<noteq> th \<or> team_away g0 \<noteq> ta")
  case True
  then show ?thesis using r
    by (auto simp: updateSuperBowlGame_def sql_set_matchup_cleared_def update_games_def step_row_def)
next
  case False
  then show ?thesis
    by (cases "is_actual_matchup g0")
       (simp_all add: updateSuperBowlGame_def sql_set_matchup_def update_games_def
          step_row_noop step_row_placeholder)
qed

lemma engine_inv_target_row:
  assumes inv: "engine_inv s W d0 d"
      and dist: "distinct (map game_id (games d0))"
      and g0: "g0 \<in> set (games d0)"
  shows "\<exists>row \<in> set (games d). game_id row = game_id g0"
    and "\<forall>row \<in> set (games d). game_id row = game_id g0 \<longrightarrow> season_id row = season_id g0"
proof -
  let ?D = "teams_changed s Divisional (games d0) (games d)"
  let ?C = "teams_changed s Conference (games d0) (games d)"
  from inv have rows: "list_all2 (row_inv s W ?D ?C) (games d0) (games d)"
    by (simp add: engine_inv_def)
  then have keys: "list_all2 same_key (games d0) (games d)"
    by (rule list_all2_mono) (simp add: row_inv_def)
  from g0 obtain i where i: "i < length (games d0)" "games d0 ! i = g0"
    by (auto simp: in_set_conv_nth)
  from keys i have "same_key g0 (games d ! i)" "i < length (games d)"
    by (auto simp: list_all2_conv_all_nth)
  then show "\<exists>row \<in> set (games d). game_id row = game_id g0"
    by (auto simp: same_key_def intro!: bexI[of _ "games d ! i"])
  show "\<forall>row \<in> set (games d). game_id row = game_id g0 \<longrightarrow> season_id row = season_id g0"
  proof (intro ballI impI)
    fix row assume row: "row \<in> set (games d)" "game_id row = game_id g0"
    then obtain j where j: "j < length (games d)" "games d ! j = row"
      by (auto simp: in_set_conv_nth)
    with keys have k: "same_key (games d0 ! j) row" "j < length (games d0)"
      by (auto simp: list_all2_conv_all_nth)
    with row g0 dist have "games d0 ! j = g0"
      by (auto simp: same_key_def intro!: distinct_id_eq[of "games d0"])
    with k show "season_id row = season_id g0" by (simp add: same_key_def)
  qed
qed

lemma updateDivisionalGame_inv:
  assumes "engine_inv s W d0 d" "distinct (map game_id (games d0))"
      and "g0 \<in> set (games d0)" "season_id g0 = s" "round g0 = Divisional"
      and "W (game_id g0) = None"
  shows "\<exists>d'. updateDivisionalGame (Some g0) th ta sh sa d = Done d' \<and>
              engine_inv s (W(game_id g0 \<mapsto> (th, ta, sh, sa))) d0 d'"
  using assms engine_inv_target_row[OF assms(1,2,3)]
  by (auto simp: updateDivisionalGame_step intro!: engine_step)

lemma updateConferenceGame_inv:
  assumes "engine_inv s W d0 d" "distinct (map game_id (games d0))"
      and "g0 \<in> set (games d0)" "season_id g0 = s" "round g0 = Conference"
      and "W (game_id g0) = None"
  shows "\<exists>d'. updateConferenceGame (Some g0) th ta sh sa d = Done d' \<and>
              engine_inv s (W(game_id g0 \<mapsto> (th, ta, sh, sa))) d0 d'"
  using assms engine_inv_target_row[OF assms(1,2,3)]
  by (auto simp: updateConferenceGame_step intro!: engine_step)

lemma updateSuperBowlGame_inv:
  assumes "engine_inv s W d0 d" "distinct (map game_id (games d0))"
      and "g0 \<in> set (games d0)" "season_id g0 = s" "round g0 = SuperBowl"
      and "W (game_id g0) = None"
  shows "\<exists>d'. updateSuperBowlGame g0 th ta sh sa d = Done d' \<and>
              engine_inv s (W(game_id g0 \<mapsto> (th, ta, sh, sa))) d0 d'"
  using assms
  by (auto simp: updateSuperBowlGame_step intro!: engine_step)

lemma reseedDivisional_plan:
  "reseedDivisional seeds conf wcs g1 g2 d =
     (if list_all (\<lambda>g. truthy (winner g)) wcs then
        (case divisional_plan seeds conf wcs of
           None \<Rightarrow> Threw TypeError d
         | Some ((th1, ta1, sh1, sa1), (th2, ta2, sh2, sa2)) \<Rightarrow>
             andThen (updateDivisionalGame g1 th1 ta1 sh1 sa1 d)
                     (updateDivisionalGame g2 th2 ta2 sh2 sa2))
      else Done d)"
  by (auto simp: reseedDivisional_def divisional_plan_def split: option.splits list.splits)

lemma reseedConference_plan:
  "reseedConference seeds divs g d =
     (if list_all (\<lambda>g. truthy (winner g)) divs then
        (case conference_plan seeds divs of
           None \<Rightarrow> Threw TypeError d
         | Some (th, ta, sh, sa) \<Rightarrow> updateConferenceGame g th ta sh sa d)
      else Done d)"
  by (auto simp: reseedConference_def conference_plan_def split: option.splits list.splits)

lemma reseedSuperBowl_plan:
  "reseedSuperBowl seeds confs sb d =
     (if isRoundComplete confs then
        (case sb of
           None \<Rightarrow> Done d
         | Some g \<Rightarrow>
            (case final_plan seeds confs of
               None \<Rightarrow> Threw TypeError d
             | Some (th, ta, sh, sa) \<Rightarrow> updateSuperBowlGame g th ta sh sa d))
      else Done d)"
  by (auto simp: reseedSuperBowl_def final_plan_def split: option.splits list.splits)

lemma updateDivisionalGame_opt:
  assumes inv: "engine_inv s W d0 d" and dist: "distinct (map game_id (games d0))"
      and t: "target d0 s Divisional W go"
  shows "engine_inv s (wr go m W) d0 (final (updateDivisionalGame go (fst m) (fst (snd m)) (fst (snd (snd m))) (snd (snd (snd m))) d))
       \<and> (go = None \<longrightarrow> updateDivisionalGame go (fst m) (fst (snd m)) (fst (snd (snd m))) (snd (snd (snd m))) d = Threw TypeError d)
       \<and> (go \<noteq> None \<longrightarrow> (\<exists>d'. updateDivisionalGame go (fst m) (fst (snd m)) (fst (snd (snd m))) (snd (snd (snd m))) d = Done d'))"
proof (cases go)
  case None
  then show ?thesis using inv by (simp add: wr_def updateDivisionalGame_def)
next
  case (Some g0)
  with t have g0: "g0 \<in> set (games d0)" "season_id g0 = s" "round g0 = Divisional" "W (game_id g0) = None"
    by (auto simp: target_def)
  obtain th ta sh sa where m: "m = (th, ta, sh, sa)" by (cases m) auto
  from updateDivisionalGame_inv[OF inv dist g0, of th ta sh sa] Some m
  show ?thesis by (auto simp: wr_def)
qed

lemma updateConferenceGame_opt:
  assumes inv: "engine_inv s W d0 d" and dist: "distinct (map game_id (games d0))"
      and t: "target d0 s Conference W go"
  shows "engine_inv s (wr go m W) d0 (final (updateConferenceGame go (fst m) (fst (snd m)) (fst (snd (snd m))) (snd (snd (snd m))) d))
       \<and> (go = None \<longrightarrow> updateConferenceGame go (fst m) (fst (snd m)) (fst (snd (snd m))) (snd (snd (snd m))) d = Threw TypeError d)
       \<and> (go \<noteq> None \<longrightarrow> (\<exists>d'. updateConferenceGame go (fst m) (fst (snd m)) (fst (snd (snd m))) (snd (snd (snd m))) d = Done d'))"
proof (cases go)
  case None
  then show ?thesis using inv by (simp add: wr_def updateConferenceGame_def)
next
  case (Some g0)
  with t have g0: "g0 \<in> set (games d0)" "season_id g0 = s" "round g0 = Conference" "W (game_id g0) = None"
    by (auto simp: target_def)
  obtain th ta sh sa where m: "m = (th, ta, sh, sa)" by (cases m) auto
  from updateConferenceGame_inv[OF inv dist g0, of th ta sh sa] Some m
  show ?thesis by (auto simp: wr_def)
qed

lemma final_andThen:
  "final (andThen r f) = (case r of Done d \<Rightarrow> final (f d) | Threw e d \<Rightarrow> d)"
  by (simp add: andThen_def split: outcome.splits)

lemma andThen_Done_iff:
  "andThen r f = Done d' \<longleftrightarrow> (\<exists>d1. r = Done d1 \<and> f d1 = Done d')"
  by (simp add: andThen_def split: outcome.splits)

lemma target_wr:
  "target d0 s r W g2o \<Longrightarrow> (\<forall>g1 g2. g1o = Some g1 \<longrightarrow> g2o = Some g2 \<longrightarrow> game_id g1 \<noteq> game_id g2) \<Longrightarrow>
   target d0 s r (wr g1o m W) g2o"
  by (auto simp: target_def wr_def split: option.splits)

lemma wr_map_le: "target d0 s r W go \<Longrightarrow> W \<subseteq>\<^sub>m wr go m W"
  by (auto simp: wr_def target_def map_le_def split: option.splits)

lemma dom_wr: "dom (wr go m W) = dom W \<union> game_id ` set_option go"
  by (auto simp: wr_def split: option.splits)

lemma reseedDivisional_inv:
  assumes inv: "engine_inv s W d0 d" and dist: "distinct (map game_id (games d0))"
      and t1: "target d0 s Divisional W g1o" and t2: "target d0 s Divisional W g2o"
      and ne: "\<forall>g1 g2. g1o = Some g1 \<longrightarrow> g2o = Some g2 \<longrightarrow> game_id g1 \<noteq> game_id g2"
  shows "\<exists>W'. engine_inv s W' d0 (final (reseedDivisional seeds conf wcs g1o g2o d))
            \<and> W \<subseteq>\<^sub>m W' \<and> dom W' \<subseteq> dom W \<union> game_id ` (set_option g1o \<union> set_option g2o)
            \<and> (\<forall>d'. reseedDivisional seeds conf wcs g1o g2o d = Done d' \<longrightarrow>
                  list_all (\<lambda>g. truthy (winner g)) wcs \<longrightarrow>
                  (\<exists>m1 m2 g1 g2. divisional_plan seeds conf wcs = Some (m1, m2) \<and>
                     g1o = Some g1 \<and> g2o = Some g2 \<and>
                     W' (game_id g1) = Some m1 \<and> W' (game_id g2) = Some m2))"
proof (cases "list_all (\<lambda>g. truthy (winner g)) wcs")
  case False
  then show ?thesis using inv by (auto simp: reseedDivisional_plan intro!: exI[of _ W])
next
  case True
  show ?thesis
  proof (cases "divisional_plan seeds conf wcs")
    case None
    then show ?thesis using inv True by (auto simp: reseedDivisional_plan intro!: exI[of _ W])
  next
    case (Some p)
    obtain m1 m2 where p: "p = (m1, m2)" by (cases p) auto
    let ?u1 = "updateDivisionalGame g1o (fst m1) (fst (snd m1)) (fst (snd (snd m1))) (snd (snd (snd m1))) d"
    let ?W1 = "wr g1o m1 W"
    have eq: "reseedDivisional seeds conf wcs g1o g2o d =
        andThen ?u1 (updateDivisionalGame g2o (fst m2) (fst (snd m2)) (fst (snd (snd m2))) (snd (snd (snd m2))))"
      using True Some p by (simp add: reseedDivisional_plan split: prod.splits)
    have u1: "engine_inv s ?W1 d0 (final ?u1)" "g1o = None \<longrightarrow> ?u1 = Threw TypeError d"
      "g1o \<noteq> None \<longrightarrow> (\<exists>d'. ?u1 = Done d')"
      using updateDivisionalGame_opt[OF inv dist t1, of m1] by blast+
    have sub1: "W \<subseteq>\<^sub>m ?W1" using t1 by (rule wr_map_le)
    show ?thesis
    proof (cases g1o)
      case None
      with u1 have "?u1 = Threw TypeError d" by simp
      then show ?thesis using inv eq by (auto simp: andThen_def intro!: exI[of _ W])
    next
      case g1: (Some g1)
      with u1 obtain d1 where d1: "?u1 = Done d1" by auto
      with u1 have inv1: "engine_inv s ?W1 d0 d1" by simp
      let ?u2 = "updateDivisionalGame g2o (fst m2) (fst (snd m2)) (fst (snd (snd m2))) (snd (snd (snd m2))) d1"
      let ?W2 = "wr g2o m2 ?W1"
      have t2': "target d0 s Divisional ?W1 g2o" using t2 ne by (rule target_wr)
      have u2: "engine_inv s ?W2 d0 (final ?u2)" "g2o = None \<longrightarrow> ?u2 = Threw TypeError d1"
        "g2o \<noteq> None \<longrightarrow> (\<exists>d'. ?u2 = Done d')"
        using updateDivisionalGame_opt[OF inv1 dist t2', of m2] by blast+
      have fin: "final (reseedDivisional seeds conf wcs g1o g2o d) = final ?u2"
        "reseedDivisional seeds conf wcs g1o g2o d = ?u2"
        unfolding eq using d1 by (simp_all add: andThen_def)
      have sub2: "W \<subseteq>\<^sub>m ?W2" using sub1 wr_map_le[OF t2'] by (rule map_le_trans)
      have dom2: "dom ?W2 \<subseteq> dom W \<union> game_id ` (set_option g1o \<union> set_option g2o)"
        by (auto simp: dom_wr)
      have wr2: "\<exists>m1' m2' g1 g2. divisional_plan seeds conf wcs = Some (m1', m2') \<and>
                     g1o = Some g1 \<and> g2o = Some g2 \<and>
                     ?W2 (game_id g1) = Some m1' \<and> ?W2 (game_id g2) = Some m2'"
        if "?u2 = Done d'" for d'
      proof -
        from that u2(2) obtain g2 where g2: "g2o = Some g2" by (cases g2o) auto
        with g1 ne have "game_id g1 \<noteq> game_id g2" by simp
        with g1 g2 Some p show ?thesis
          by (intro exI[of _ m1] exI[of _ m2] exI[of _ g1] exI[of _ g2]) (simp add: wr_def)
      qed
      show ?thesis
        unfolding fin using u2(1) sub2 dom2 wr2 by (intro exI[of _ ?W2]) blast
    qed
  qed
qed

lemma updateSuperBowlGame_opt:
  assumes inv: "engine_inv s W d0 d" and dist: "distinct (map game_id (games d0))"
      and t: "target d0 s SuperBowl W (Some g0)"
  shows "\<exists>d'. updateSuperBowlGame g0 (fst m) (fst (snd m)) (fst (snd (snd m))) (snd (snd (snd m))) d = Done d'
           \<and> engine_inv s (wr (Some g0) m W) d0 d'"
proof -
  from t have g0: "g0 \<in> set (games d0)" "season_id g0 = s" "round g0 = SuperBowl" "W (game_id g0) = None"
    by (auto simp: target_def)
  obtain th ta sh sa where m: "m = (th, ta, sh, sa)" by (cases m) auto
  from updateSuperBowlGame_inv[OF inv dist g0, of th ta sh sa] m
  show ?thesis by (auto simp: wr_def)
qed

lemma reseedConference_inv:
  assumes inv: "engine_inv s W d0 d" and dist: "distinct (map game_id (games d0))"
      and t: "target d0 s Conference W go"
  shows "\<exists>W'. engine_inv s W' d0 (final (reseedConference seeds divs go d))
            \<and> W \<subseteq>\<^sub>m W' \<and> dom W' \<subseteq> dom W \<union> game_id ` set_option go
            \<and> (\<forall>d'. reseedConference seeds divs go d = Done d' \<longrightarrow>
                  list_all (\<lambda>g. truthy (winner g)) divs \<longrightarrow>
                  (\<exists>m g. conference_plan seeds divs = Some m \<and> go = Some g \<and>
                     W' (game_id g) = Some m))"
proof (cases "list_all (\<lambda>g. truthy (winner g)) divs")
  case False
  then show ?thesis using inv by (auto simp: reseedConference_plan intro!: exI[of _ W])
next
  case True
  show ?thesis
  proof (cases "conference_plan seeds divs")
    case None
    then show ?thesis using inv True by (auto simp: reseedConference_plan intro!: exI[of _ W])
  next
    case (Some m)
    let ?u = "updateConferenceGame go (fst m) (fst (snd m)) (fst (snd (snd m))) (snd (snd (snd m))) d"
    have eq: "reseedConference seeds divs go d = ?u"
      using True Some by (simp add: reseedConference_plan split: prod.splits)
    have u: "engine_inv s (wr go m W) d0 (final ?u)" "go = None \<longrightarrow> ?u = Threw TypeError d"
      using updateConferenceGame_opt[OF inv dist t, of m] by blast+
    have w: "\<exists>m' g. conference_plan seeds divs = Some m' \<and> go = Some g \<and> wr go m W (game_id g) = Some m'"
      if "?u = Done d'" for d'
    proof -
      from that u(2) obtain g where "go = Some g" by (cases go) auto
      with Some show ?thesis by (intro exI[of _ m] exI[of _ g]) (simp add: wr_def)
    qed
    show ?thesis unfolding eq
      using u(1) wr_map_le[OF t, of m] w by (intro exI[of _ "wr go m W"]) (auto simp: dom_wr)
  qed
qed

lemma reseedSuperBowl_inv:
  assumes inv: "engine_inv s W d0 d" and dist: "distinct (map game_id (games d0))"
      and t: "target d0 s SuperBowl W sb"
  shows "\<exists>W'. engine_inv s W' d0 (final (reseedSuperBowl seeds confs sb d))
            \<and> W \<subseteq>\<^sub>m W' \<and> dom W' \<subseteq> dom W \<union> game_id ` set_option sb
            \<and> (\<forall>d'. reseedSuperBowl seeds confs sb d = Done d' \<longrightarrow>
                  isRoundComplete confs \<longrightarrow>
                  (\<forall>g. sb = Some g \<longrightarrow>
                     (\<exists>m. final_plan seeds confs = Some m \<and> W' (game_id g) = Some m)))"
proof (cases "isRoundComplete confs \<and> sb \<noteq> None \<and> final_plan seeds confs \<noteq> None")
  case False
  then show ?thesis using inv
    by (auto simp: reseedSuperBowl_plan intro!: exI[of _ W] split: option.splits)
next
  case True
  then obtain g m where g: "sb = Some g" and m: "final_plan seeds confs = Some m" by auto
  let ?u = "updateSuperBowlGame g (fst m) (fst (snd m)) (fst (snd (snd m))) (snd (snd (snd m))) d"
  have eq: "reseedSuperBowl seeds confs sb d = ?u"
    using True g m by (simp add: reseedSuperBowl_plan split: prod.splits)
  from t g have t': "target d0 s SuperBowl W (Some g)" by simp
  from updateSuperBowlGame_opt[OF inv dist t', of m] obtain d' where
    d': "?u = Done d'" "engine_inv s (wr (Some g) m W) d0 d'" by blast
  have a: "engine_inv s (wr (Some g) m W) d0 (final ?u)" using d' by simp
  have b: "dom (wr (Some g) m W) \<subseteq> dom W \<union> game_id ` set_option sb" using g by (simp add: dom_wr)
  have c: "\<forall>g'. sb = Some g' \<longrightarrow>
             (\<exists>m'. final_plan seeds confs = Some m' \<and> wr (Some g) m W (game_id g') = Some m')"
    using g m by (cases m) (simp add: wr_def)
  show ?thesis unfolding eq
    using a b c wr_map_le[OF t', of m] by (intro exI[of _ "wr (Some g) m W"]) blast
qed

lemma reseed_steps:
  "reseedPlayoffBracket d s =
     andThen (andThen (reseed_step1 d s d) (reseed_step2 d s)) (reseed_step3 d s)"
  unfolding reseedPlayoffBracket_def reseed_step1_def reseed_step2_def[abs_def]
    reseed_step3_def[abs_def] round_games_def Let_def
  by (rule refl)

lemma round_games_sub:
  "g \<in> set (round_games d s r) \<Longrightarrow> g \<in> set (games d) \<and> season_id g = s \<and> round g = r"
  by (auto simp: round_games_def getGamesBySeason_def)

lemma season_games_distinct:
  "distinct (map game_id (games d)) \<Longrightarrow> distinct (map game_id (getGamesBySeason d s))"
  by (auto simp: getGamesBySeason_def distinct_map intro: inj_on_subset)

lemma round_games_distinct:
  "distinct (map game_id (games d)) \<Longrightarrow> distinct (map game_id (round_games d s r))"
  unfolding round_games_def by (intro distinct_map_filter season_games_distinct)

lemma nth_opt_in: "nth_opt xs i = Some g \<Longrightarrow> g \<in> set xs"
  by (auto simp: nth_opt_def split: if_splits)

lemma nth_opt_ids_ne:
  "distinct (map game_id xs) \<Longrightarrow> i \<noteq> j \<Longrightarrow> nth_opt xs i = Some g \<Longrightarrow> nth_opt xs j = Some h \<Longrightarrow>
   game_id g \<noteq> game_id h"
  by (auto simp: nth_opt_def distinct_conv_nth split: if_splits)

lemma nth_opt_target:
  assumes "\<forall>g \<in> set (round_games d0 s r). W (game_id g) = None"
  shows "target d0 s r W (nth_opt (round_games d0 s r) i)"
  using assms by (auto simp: target_def dest: nth_opt_in round_games_sub)

lemma find_Some_in: "find P xs = Some x \<Longrightarrow> P x \<and> x \<in> set xs"
  by (induction xs) (auto split: if_splits)

lemma find_target:
  assumes "\<forall>g \<in> set (games d0). round g = SuperBowl \<longrightarrow> W (game_id g) = None"
  shows "target d0 s SuperBowl W (find (\<lambda>g. round g = SuperBowl) (getGamesBySeason d0 s))"
  using assms by (auto simp: target_def getGamesBySeason_def dest!: find_Some_in)

lemma teams_changed_refl: "\<not> teams_changed s r gs gs"
  by (auto simp: teams_changed_iff same_teams_def set_zip)

lemma engine_inv_refl: "engine_inv s Map.empty d d"
  by (auto simp: engine_inv_def teams_changed_refl list_all2_same row_inv_def same_key_def
      same_matchup_def same_teams_def same_result_def)

lemma untouched_target:
  "untouched_round d0 r W \<Longrightarrow> target d0 s r W (nth_opt (round_games d0 s r) i)"
  by (rule nth_opt_target) (auto simp: untouched_round_def dest: round_games_sub)

lemma untouched_other:
  assumes ut: "untouched_round d0 r W" and dist: "distinct (map game_id (games d0))"
      and dom: "dom W' \<subseteq> dom W \<union> game_id ` T" and T: "\<forall>g \<in> T. g \<in> set (games d0) \<and> round g \<noteq> r"
  shows "untouched_round d0 r W'"
  unfolding untouched_round_def
proof (intro ballI impI)
  fix g assume g: "g \<in> set (games d0)" "round g = r"
  show "W' (game_id g) = None"
  proof (rule ccontr)
    assume "W' (game_id g) \<noteq> None"
    then have "game_id g \<in> dom W'" by (auto simp: dom_def)
    with dom have "game_id g \<in> dom W \<or> game_id g \<in> game_id ` T" by blast
    then show False
    proof
      assume "game_id g \<in> dom W"
      with ut g show False by (auto simp: untouched_round_def)
    next
      assume "game_id g \<in> game_id ` T"
      then obtain h where h: "h \<in> T" "game_id g = game_id h" by auto
      with T have "h \<in> set (games d0)" "round h \<noteq> r" by auto
      with dist g h have "g = h" by (auto intro: distinct_id_eq)
      with g \<open>round h \<noteq> r\<close> show False by simp
    qed
  qed
qed

lemma sub_un: "A \<subseteq> B \<union> C \<Longrightarrow> C \<subseteq> D \<Longrightarrow> A \<subseteq> B \<union> D"
  by blast

lemma sub_un2: "A \<subseteq> A1 \<union> C \<Longrightarrow> A1 \<subseteq> B \<union> D \<Longrightarrow> C \<subseteq> D \<Longrightarrow> A \<subseteq> B \<union> D"
  by blast

lemma map_le_keep: "W1 \<subseteq>\<^sub>m W2 \<Longrightarrow> W1 x = Some m \<Longrightarrow> W2 x = Some m"
  by (metis domI map_le_def)

lemma step1_inv:
  assumes inv: "engine_inv s W d0 d" and dist: "distinct (map game_id (games d0))"
      and ut: "untouched_round d0 Divisional W"
  shows "\<exists>W'. engine_inv s W' d0 (final (reseed_step1 d0 s d))
            \<and> W \<subseteq>\<^sub>m W'
            \<and> dom W' \<subseteq> dom W \<union> game_id ` {g \<in> set (round_games d0 s Divisional).
                                              isRoundComplete (round_games d0 s WildCard)}
            \<and> (\<forall>d'. reseed_step1 d0 s d = Done d' \<longrightarrow> isRoundComplete (round_games d0 s WildCard) \<longrightarrow>
                 (\<exists>a1 a2 n1 n2.
                    divisional_plan (getPlayoffSeeds d0 s) AFC
                      (filter (\<lambda>g. 1 \<le> game_number g \<and> game_number g \<le> 3) (round_games d0 s WildCard))
                      = Some (a1, a2) \<and>
                    divisional_plan (getPlayoffSeeds d0 s) NFC
                      (filter (\<lambda>g. 4 \<le> game_number g \<and> game_number g \<le> 6) (round_games d0 s WildCard))
                      = Some (n1, n2) \<and>
                    plan_written W' (nth_opt (round_games d0 s Divisional) 0) a1 \<and>
                    plan_written W' (nth_opt (round_games d0 s Divisional) 1) a2 \<and>
                    plan_written W' (nth_opt (round_games d0 s Divisional) 2) n1 \<and>
                    plan_written W' (nth_opt (round_games d0 s Divisional) 3) n2))"
proof (cases "isRoundComplete (round_games d0 s WildCard)")
  case False
  then show ?thesis using inv by (auto simp: reseed_step1_def intro!: exI[of _ W])
next
  case True
  let ?seeds = "getPlayoffSeeds d0 s"
  let ?wc = "round_games d0 s WildCard"
  let ?divs = "round_games d0 s Divisional"
  let ?afc = "filter (\<lambda>g. 1 \<le> game_number g \<and> game_number g \<le> 3) ?wc"
  let ?nfc = "filter (\<lambda>g. 4 \<le> game_number g \<and> game_number g \<le> 6) ?wc"
  let ?b1 = "reseedDivisional ?seeds AFC ?afc (nth_opt ?divs 0) (nth_opt ?divs 1) d"
  have all: "list_all (\<lambda>g. truthy (winner g)) ?afc" "list_all (\<lambda>g. truthy (winner g)) ?nfc"
    using True by (auto simp: isRoundComplete_def list_all_iff)
  have dd: "distinct (map game_id ?divs)" using dist by (rule round_games_distinct)
  have ne: "\<forall>g1 g2. nth_opt ?divs i = Some g1 \<longrightarrow> nth_opt ?divs j = Some g2 \<longrightarrow> game_id g1 \<noteq> game_id g2"
    if "i \<noteq> j" for i j
    using nth_opt_ids_ne[OF dd that] by blast
  have t: "target d0 s Divisional W (nth_opt ?divs i)" for i using ut by (rule untouched_target)
  have ne01: "\<forall>g1 g2. nth_opt ?divs 0 = Some g1 \<longrightarrow> nth_opt ?divs 1 = Some g2 \<longrightarrow> game_id g1 \<noteq> game_id g2"
    by (rule ne) simp
  from reseedDivisional_inv[OF inv dist t[of 0] t[of 1] ne01, of ?seeds AFC ?afc]
  obtain W1 where W1: "engine_inv s W1 d0 (final ?b1)" "W \<subseteq>\<^sub>m W1"
    "dom W1 \<subseteq> dom W \<union> game_id ` (set_option (nth_opt ?divs 0) \<union> set_option (nth_opt ?divs 1))"
    "\<forall>d'. ?b1 = Done d' \<longrightarrow> list_all (\<lambda>g. truthy (winner g)) ?afc \<longrightarrow>
        (\<exists>m1 m2 g1 g2. divisional_plan ?seeds AFC ?afc = Some (m1, m2) \<and>
           nth_opt ?divs 0 = Some g1 \<and> nth_opt ?divs 1 = Some g2 \<and>
           W1 (game_id g1) = Some m1 \<and> W1 (game_id g2) = Some m2)"
    by (elim exE conjE) (rule that)
  have in_divs: "game_id ` (set_option (nth_opt ?divs i) \<union> set_option (nth_opt ?divs j))
       \<subseteq> game_id ` {g \<in> set ?divs. isRoundComplete ?wc}" for i j
    using True by (auto dest: nth_opt_in)
  have eq: "reseed_step1 d0 s d = andThen ?b1
      (reseedDivisional ?seeds NFC ?nfc (nth_opt ?divs 2) (nth_opt ?divs 3))"
    using True by (simp add: reseed_step1_def)
  show ?thesis
  proof (cases ?b1)
    case (Threw e d1)
    then have "reseed_step1 d0 s d = Threw e d1" unfolding eq by (simp add: andThen_def)
    moreover have "dom W1 \<subseteq> dom W \<union> game_id ` {g \<in> set ?divs. isRoundComplete ?wc}"
      using W1(3) in_divs[of 0 1] by (rule sub_un)
    ultimately show ?thesis using W1(1,2) Threw
      by (intro exI[of _ W1] conjI allI impI) simp_all
  next
    case (Done d1)
    with W1 have inv1: "engine_inv s W1 d0 d1" by simp
    from W1(4) Done all(1) obtain a1 a2 g1 g2 where
      afc: "divisional_plan ?seeds AFC ?afc = Some (a1, a2)"
        "nth_opt ?divs 0 = Some g1" "nth_opt ?divs 1 = Some g2"
        "W1 (game_id g1) = Some a1" "W1 (game_id g2) = Some a2"
      by blast
    let ?b2 = "reseedDivisional ?seeds NFC ?nfc (nth_opt ?divs 2) (nth_opt ?divs 3) d1"
    have t1: "target d0 s Divisional W1 (nth_opt ?divs i)" if "i \<noteq> 0" "i \<noteq> 1" for i
      unfolding target_def
    proof (intro allI impI)
      fix g assume g: "nth_opt ?divs i = Some g"
      with t[of i] have a: "g \<in> set (games d0)" "season_id g = s" "round g = Divisional"
        "W (game_id g) = None"
        by (auto simp: target_def)
      from g afc(2,3) that ne[of i 0] ne[of i 1]
      have "game_id g \<noteq> game_id g1" "game_id g \<noteq> game_id g2" by auto
      moreover have "dom W1 \<subseteq> dom W \<union> {game_id g1, game_id g2}"
        using W1(3) unfolding afc(2,3) by auto
      moreover have "game_id g \<notin> dom W" using a(4) by (simp add: domIff)
      ultimately have "game_id g \<notin> dom W1" by blast
      then have "W1 (game_id g) = None" by (metis domIff)
      with a show "g \<in> set (games d0) \<and> season_id g = s \<and> round g = Divisional \<and> W1 (game_id g) = None"
        by simp
    qed
    have t2: "target d0 s Divisional W1 (nth_opt ?divs 2)" by (rule t1) simp_all
    have t3: "target d0 s Divisional W1 (nth_opt ?divs 3)" by (rule t1) simp_all
    have ne23: "\<forall>g1 g2. nth_opt ?divs 2 = Some g1 \<longrightarrow> nth_opt ?divs 3 = Some g2 \<longrightarrow> game_id g1 \<noteq> game_id g2"
      by (rule ne) simp
    from reseedDivisional_inv[OF inv1 dist t2 t3 ne23, of ?seeds NFC ?nfc]
    obtain W2 where W2: "engine_inv s W2 d0 (final ?b2)" "W1 \<subseteq>\<^sub>m W2"
      "dom W2 \<subseteq> dom W1 \<union> game_id ` (set_option (nth_opt ?divs 2) \<union> set_option (nth_opt ?divs 3))"
      "\<forall>d'. ?b2 = Done d' \<longrightarrow> list_all (\<lambda>g. truthy (winner g)) ?nfc \<longrightarrow>
          (\<exists>m1 m2 g1 g2. divisional_plan ?seeds NFC ?nfc = Some (m1, m2) \<and>
             nth_opt ?divs 2 = Some g1 \<and> nth_opt ?divs 3 = Some g2 \<and>
             W2 (game_id g1) = Some m1 \<and> W2 (game_id g2) = Some m2)"
      by (elim exE conjE) (rule that)
    have fin: "reseed_step1 d0 s d = ?b2" unfolding eq using Done by (simp add: andThen_def)
    have sub: "W \<subseteq>\<^sub>m W2" using W1(2) W2(2) by (rule map_le_trans)
    have dom1: "dom W1 \<subseteq> dom W \<union> game_id ` {g \<in> set ?divs. isRoundComplete ?wc}"
      using W1(3) in_divs[of 0 1] by (rule sub_un)
    have dom: "dom W2 \<subseteq> dom W \<union> game_id ` {g \<in> set ?divs. isRoundComplete ?wc}"
      using W2(3) dom1 in_divs[of 2 3] by (rule sub_un2)
    have keep: "W2 x = Some m" if "W1 x = Some m" for x m
      using W2(2) that by (rule map_le_keep)
    have wr: "\<exists>a1 a2 n1 n2.
                divisional_plan ?seeds AFC ?afc = Some (a1, a2) \<and>
                divisional_plan ?seeds NFC ?nfc = Some (n1, n2) \<and>
                plan_written W2 (nth_opt ?divs 0) a1 \<and> plan_written W2 (nth_opt ?divs 1) a2 \<and>
                plan_written W2 (nth_opt ?divs 2) n1 \<and> plan_written W2 (nth_opt ?divs 3) n2"
      if "?b2 = Done d'" for d'
    proof -
      from W2(4) that all(2) obtain n1 n2 g3 g4 where
        nfc: "divisional_plan ?seeds NFC ?nfc = Some (n1, n2)"
          "nth_opt ?divs 2 = Some g3" "nth_opt ?divs 3 = Some g4"
          "W2 (game_id g3) = Some n1" "W2 (game_id g4) = Some n2"
        by blast
      show ?thesis
        using afc nfc keep[OF afc(4)] keep[OF afc(5)]
        by (intro exI[of _ a1] exI[of _ a2] exI[of _ n1] exI[of _ n2]) (simp add: plan_written_def)
    qed
    show ?thesis unfolding fin
    proof (intro exI[of _ W2] conjI allI impI)
      show "engine_inv s W2 d0 (final ?b2)" by (rule W2(1))
      show "W \<subseteq>\<^sub>m W2" by (rule sub)
      show "dom W2 \<subseteq> dom W \<union> game_id ` {g \<in> set ?divs. isRoundComplete ?wc}" by (rule dom)
    next
      fix d' assume "?b2 = Done d'"
      then show "\<exists>a1 a2 n1 n2.
                divisional_plan ?seeds AFC ?afc = Some (a1, a2) \<and>
                divisional_plan ?seeds NFC ?nfc = Some (n1, n2) \<and>
                plan_written W2 (nth_opt ?divs 0) a1 \<and> plan_written W2 (nth_opt ?divs 1) a2 \<and>
                plan_written W2 (nth_opt ?divs 2) n1 \<and> plan_written W2 (nth_opt ?divs 3) n2"
        by (rule wr)
    qed
  qed
qed

lemma plan_written_mono: "plan_written W go m \<Longrightarrow> W \<subseteq>\<^sub>m W' \<Longrightarrow> plan_written W' go m"
  unfolding plan_written_def by (blast intro: map_le_keep)

lemma step1_written_mono: "step1_written W d0 s \<Longrightarrow> W \<subseteq>\<^sub>m W' \<Longrightarrow> step1_written W' d0 s"
  unfolding step1_written_def by (blast intro: plan_written_mono)

lemma step2_written_mono: "step2_written W d0 s \<Longrightarrow> W \<subseteq>\<^sub>m W' \<Longrightarrow> step2_written W' d0 s"
  unfolding step2_written_def by (blast intro: plan_written_mono)

lemma step1_inv':
  assumes inv: "engine_inv s W d0 d" and dist: "distinct (map game_id (games d0))"
      and ut: "untouched_round d0 Divisional W"
  shows "\<exists>W'. engine_inv s W' d0 (final (reseed_step1 d0 s d))
            \<and> W \<subseteq>\<^sub>m W'
            \<and> dom W' \<subseteq> dom W \<union> game_id ` {g \<in> set (round_games d0 s Divisional).
                                              isRoundComplete (round_games d0 s WildCard)}
            \<and> (\<forall>d'. reseed_step1 d0 s d = Done d' \<longrightarrow> isRoundComplete (round_games d0 s WildCard) \<longrightarrow>
                 step1_written W' d0 s)"
  unfolding step1_written_def using step1_inv[OF assms] .

lemma step2_inv:
  assumes inv: "engine_inv s W d0 d" and dist: "distinct (map game_id (games d0))"
      and ut: "untouched_round d0 Conference W"
  shows "\<exists>W'. engine_inv s W' d0 (final (reseed_step2 d0 s d))
            \<and> W \<subseteq>\<^sub>m W'
            \<and> dom W' \<subseteq> dom W \<union> game_id ` {g \<in> set (round_games d0 s Conference).
                                              isRoundComplete (round_games d0 s Divisional)}
            \<and> (\<forall>d'. reseed_step2 d0 s d = Done d' \<longrightarrow> isRoundComplete (round_games d0 s Divisional) \<longrightarrow>
                 step2_written W' d0 s)"
proof (cases "isRoundComplete (round_games d0 s Divisional)")
  case False
  then show ?thesis using inv by (auto simp: reseed_step2_def intro!: exI[of _ W])
next
  case True
  let ?seeds = "getPlayoffSeeds d0 s"
  let ?divs = "round_games d0 s Divisional"
  let ?confs = "round_games d0 s Conference"
  let ?afc = "filter (\<lambda>g. 1 \<le> game_number g \<and> game_number g \<le> 2) ?divs"
  let ?nfc = "filter (\<lambda>g. 3 \<le> game_number g \<and> game_number g \<le> 4) ?divs"
  let ?b1 = "reseedConference ?seeds ?afc (nth_opt ?confs 0) d"
  have all: "list_all (\<lambda>g. truthy (winner g)) ?afc" "list_all (\<lambda>g. truthy (winner g)) ?nfc"
    using True by (auto simp: isRoundComplete_def list_all_iff)
  have dd: "distinct (map game_id ?confs)" using dist by (rule round_games_distinct)
  have t: "target d0 s Conference W (nth_opt ?confs i)" for i using ut by (rule untouched_target)
  from reseedConference_inv[OF inv dist t[of 0], of ?seeds ?afc]
  obtain W1 where W1: "engine_inv s W1 d0 (final ?b1)" "W \<subseteq>\<^sub>m W1"
    "dom W1 \<subseteq> dom W \<union> game_id ` set_option (nth_opt ?confs 0)"
    "\<forall>d'. ?b1 = Done d' \<longrightarrow> list_all (\<lambda>g. truthy (winner g)) ?afc \<longrightarrow>
        (\<exists>m g. conference_plan ?seeds ?afc = Some m \<and> nth_opt ?confs 0 = Some g \<and>
           W1 (game_id g) = Some m)"
    by (elim exE conjE) (rule that)
  have in_confs: "game_id ` set_option (nth_opt ?confs i)
       \<subseteq> game_id ` {g \<in> set ?confs. isRoundComplete ?divs}" for i
    using True by (auto dest: nth_opt_in)
  have eq: "reseed_step2 d0 s d = andThen ?b1 (reseedConference ?seeds ?nfc (nth_opt ?confs 1))"
    using True by (simp add: reseed_step2_def)
  have dom1: "dom W1 \<subseteq> dom W \<union> game_id ` {g \<in> set ?confs. isRoundComplete ?divs}"
    using W1(3) in_confs[of 0] by (rule sub_un)
  show ?thesis
  proof (cases ?b1)
    case (Threw e d1)
    then have "reseed_step2 d0 s d = Threw e d1" unfolding eq by (simp add: andThen_def)
    then show ?thesis using W1(1,2) Threw dom1
      by (intro exI[of _ W1] conjI allI impI) simp_all
  next
    case (Done d1)
    with W1 have inv1: "engine_inv s W1 d0 d1" by simp
    from W1(4) Done all(1) obtain a g1 where
      afc: "conference_plan ?seeds ?afc = Some a" "nth_opt ?confs 0 = Some g1" "W1 (game_id g1) = Some a"
      by blast
    let ?b2 = "reseedConference ?seeds ?nfc (nth_opt ?confs 1) d1"
    have t1: "target d0 s Conference W1 (nth_opt ?confs 1)"
      unfolding target_def
    proof (intro allI impI)
      fix g assume g: "nth_opt ?confs 1 = Some g"
      with t[of 1] have a: "g \<in> set (games d0)" "season_id g = s" "round g = Conference"
        "W (game_id g) = None"
        by (auto simp: target_def)
      have "game_id g \<noteq> game_id g1"
        using nth_opt_ids_ne[OF dd _ g afc(2)] by simp
      moreover have "dom W1 \<subseteq> dom W \<union> {game_id g1}"
        using W1(3) unfolding afc(2) by auto
      moreover have "game_id g \<notin> dom W" using a(4) by (simp add: domIff)
      ultimately have "game_id g \<notin> dom W1" by blast
      then have "W1 (game_id g) = None" by (metis domIff)
      with a show "g \<in> set (games d0) \<and> season_id g = s \<and> round g = Conference \<and> W1 (game_id g) = None"
        by simp
    qed
    from reseedConference_inv[OF inv1 dist t1, of ?seeds ?nfc]
    obtain W2 where W2: "engine_inv s W2 d0 (final ?b2)" "W1 \<subseteq>\<^sub>m W2"
      "dom W2 \<subseteq> dom W1 \<union> game_id ` set_option (nth_opt ?confs 1)"
      "\<forall>d'. ?b2 = Done d' \<longrightarrow> list_all (\<lambda>g. truthy (winner g)) ?nfc \<longrightarrow>
          (\<exists>m g. conference_plan ?seeds ?nfc = Some m \<and> nth_opt ?confs 1 = Some g \<and>
             W2 (game_id g) = Some m)"
      by (elim exE conjE) (rule that)
    have fin: "reseed_step2 d0 s d = ?b2" unfolding eq using Done by (simp add: andThen_def)
    have sub: "W \<subseteq>\<^sub>m W2" using W1(2) W2(2) by (rule map_le_trans)
    have dom: "dom W2 \<subseteq> dom W \<union> game_id ` {g \<in> set ?confs. isRoundComplete ?divs}"
      using W2(3) dom1 in_confs[of 1] by (rule sub_un2)
    have wr: "step2_written W2 d0 s" if "?b2 = Done d'" for d'
    proof -
      from W2(4) that all(2) obtain n g2 where
        nfc: "conference_plan ?seeds ?nfc = Some n" "nth_opt ?confs 1 = Some g2" "W2 (game_id g2) = Some n"
        by blast
      show ?thesis unfolding step2_written_def
        using afc nfc map_le_keep[OF W2(2) afc(3)]
        by (intro exI[of _ a] exI[of _ n]) (simp add: plan_written_def)
    qed
    show ?thesis unfolding fin
    proof (intro exI[of _ W2] conjI allI impI)
      show "engine_inv s W2 d0 (final ?b2)" by (rule W2(1))
      show "W \<subseteq>\<^sub>m W2" by (rule sub)
      show "dom W2 \<subseteq> dom W \<union> game_id ` {g \<in> set ?confs. isRoundComplete ?divs}" by (rule dom)
    next
      fix d' assume "?b2 = Done d'"
      then show "step2_written W2 d0 s" by (rule wr)
    qed
  qed
qed

lemma step3_inv:
  assumes inv: "engine_inv s W d0 d" and dist: "distinct (map game_id (games d0))"
      and ut: "untouched_round d0 SuperBowl W"
  shows "\<exists>W'. engine_inv s W' d0 (final (reseed_step3 d0 s d))
            \<and> W \<subseteq>\<^sub>m W'
            \<and> dom W' \<subseteq> dom W \<union> game_id ` {g \<in> set (games d0). round g = SuperBowl}
            \<and> (\<forall>d'. reseed_step3 d0 s d = Done d' \<longrightarrow> isRoundComplete (round_games d0 s Conference) \<longrightarrow>
                 step3_written W' d0 s)"
proof -
  let ?sb = "find (\<lambda>g. round g = SuperBowl) (getGamesBySeason d0 s)"
  have t: "target d0 s SuperBowl W ?sb"
    using ut by (intro find_target) (simp add: untouched_round_def)
  from reseedSuperBowl_inv[OF inv dist t, of "getPlayoffSeeds d0 s" "round_games d0 s Conference",
      folded reseed_step3_def]
  obtain W' where W': "engine_inv s W' d0 (final (reseed_step3 d0 s d))" "W \<subseteq>\<^sub>m W'"
    "dom W' \<subseteq> dom W \<union> game_id ` set_option ?sb"
    "\<forall>d'. reseed_step3 d0 s d = Done d' \<longrightarrow> isRoundComplete (round_games d0 s Conference) \<longrightarrow>
       (\<forall>g. ?sb = Some g \<longrightarrow>
          (\<exists>m. final_plan (getPlayoffSeeds d0 s) (round_games d0 s Conference) = Some m \<and>
               W' (game_id g) = Some m))"
    by (elim exE conjE) (rule that)
  have "game_id ` set_option ?sb \<subseteq> game_id ` {g \<in> set (games d0). round g = SuperBowl}"
    by (auto simp: getGamesBySeason_def dest!: find_Some_in)
  with W'(3) have "dom W' \<subseteq> dom W \<union> game_id ` {g \<in> set (games d0). round g = SuperBowl}"
    by (rule sub_un)
  with W'(1,2,4) show ?thesis unfolding step3_written_def by (intro exI[of _ W']) simp
qed

lemma untouched_empty: "untouched_round d0 r Map.empty"
  by (simp add: untouched_round_def)

lemma reseed_inv:
  assumes dist: "distinct (map game_id (games d))"
  shows "\<exists>W. engine_inv s W d (final (reseedPlayoffBracket d s))
          \<and> dom W \<subseteq> game_id ` {g \<in> set (round_games d s Divisional). isRoundComplete (round_games d s WildCard)}
                   \<union> game_id ` {g \<in> set (round_games d s Conference). isRoundComplete (round_games d s Divisional)}
                   \<union> game_id ` {g \<in> set (games d). round g = SuperBowl}
          \<and> (\<forall>d1. reseed_step1 d s d = Done d1 \<longrightarrow> isRoundComplete (round_games d s WildCard) \<longrightarrow>
                step1_written W d s)
          \<and> (\<forall>d'. reseedPlayoffBracket d s = Done d' \<longrightarrow>
                (isRoundComplete (round_games d s Divisional) \<longrightarrow> step2_written W d s) \<and>
                (isRoundComplete (round_games d s Conference) \<longrightarrow> step3_written W d s))"
proof -
  let ?T1 = "{g \<in> set (round_games d s Divisional). isRoundComplete (round_games d s WildCard)}"
  let ?T2 = "{g \<in> set (round_games d s Conference). isRoundComplete (round_games d s Divisional)}"
  let ?T3 = "{g \<in> set (games d). round g = SuperBowl}"
  let ?s1 = "reseed_step1 d s d"
  from step1_inv'[OF engine_inv_refl dist untouched_empty, of s]
  obtain W1 where W1: "engine_inv s W1 d (final ?s1)"
    "dom W1 \<subseteq> dom (Map.empty :: nat \<rightharpoonup> matchup) \<union> game_id ` ?T1"
    "\<forall>d'. ?s1 = Done d' \<longrightarrow> isRoundComplete (round_games d s WildCard) \<longrightarrow> step1_written W1 d s"
    by (elim exE conjE) (rule that)
  have d1: "dom W1 \<subseteq> game_id ` ?T1" using W1(2) by simp
  have eq: "reseedPlayoffBracket d s = andThen (andThen ?s1 (reseed_step2 d s)) (reseed_step3 d s)"
    by (rule reseed_steps)
  show ?thesis
  proof (cases ?s1)
    case (Threw e x)
    then have r: "reseedPlayoffBracket d s = Threw e x" unfolding eq by (simp add: andThen_def)
    have "dom W1 \<subseteq> game_id ` ?T1 \<union> game_id ` ?T2 \<union> game_id ` ?T3" using d1 by blast
    then show ?thesis using W1(1,3) Threw r
      by (intro exI[of _ W1] conjI allI impI) simp_all
  next
    case s1: (Done x1)
    with W1 have inv1: "engine_inv s W1 d x1" by simp
    have ut2: "untouched_round d Conference W1"
    proof (rule untouched_other[OF untouched_empty dist])
      show "dom W1 \<subseteq> dom (Map.empty :: nat \<rightharpoonup> matchup) \<union> game_id ` ?T1" by (rule W1(2))
      show "\<forall>g \<in> ?T1. g \<in> set (games d) \<and> round g \<noteq> Conference"
        by (auto dest: round_games_sub)
    qed
    let ?s2 = "reseed_step2 d s x1"
    from step2_inv[OF inv1 dist ut2]
    obtain W2 where W2: "engine_inv s W2 d (final ?s2)" "W1 \<subseteq>\<^sub>m W2"
      "dom W2 \<subseteq> dom W1 \<union> game_id ` ?T2"
      "\<forall>d'. ?s2 = Done d' \<longrightarrow> isRoundComplete (round_games d s Divisional) \<longrightarrow> step2_written W2 d s"
      by (elim exE conjE) (rule that)
    have d2: "dom W2 \<subseteq> game_id ` (?T1 \<union> ?T2)" using W2(3) d1 by blast
    have w1: "isRoundComplete (round_games d s WildCard) \<longrightarrow> step1_written W2 d s"
      using W1(3) s1 W2(2) by (blast intro: step1_written_mono)
    show ?thesis
    proof (cases ?s2)
      case (Threw e x)
      then have r: "reseedPlayoffBracket d s = Threw e x" unfolding eq using s1 by (simp add: andThen_def)
      have "dom W2 \<subseteq> game_id ` ?T1 \<union> game_id ` ?T2 \<union> game_id ` ?T3" using d2 by blast
      then show ?thesis using W2(1) w1 Threw r
        by (intro exI[of _ W2] conjI allI impI) simp_all
    next
      case s2: (Done x2)
      with W2 have inv2: "engine_inv s W2 d x2" by simp
      have ut3: "untouched_round d SuperBowl W2"
      proof (rule untouched_other[OF untouched_empty dist])
        show "dom W2 \<subseteq> dom (Map.empty :: nat \<rightharpoonup> matchup) \<union> game_id ` (?T1 \<union> ?T2)"
          using d2 by simp
        show "\<forall>g \<in> ?T1 \<union> ?T2. g \<in> set (games d) \<and> round g \<noteq> SuperBowl"
          by (auto dest: round_games_sub)
      qed
      let ?s3 = "reseed_step3 d s x2"
      from step3_inv[OF inv2 dist ut3]
      obtain W3 where W3: "engine_inv s W3 d (final ?s3)" "W2 \<subseteq>\<^sub>m W3"
        "dom W3 \<subseteq> dom W2 \<union> game_id ` ?T3"
        "\<forall>d'. ?s3 = Done d' \<longrightarrow> isRoundComplete (round_games d s Conference) \<longrightarrow> step3_written W3 d s"
        by (elim exE conjE) (rule that)
      have r: "reseedPlayoffBracket d s = ?s3" unfolding eq using s1 s2 by (simp add: andThen_def)
      have d3: "dom W3 \<subseteq> game_id ` ?T1 \<union> game_id ` ?T2 \<union> game_id ` ?T3"
        using W3(3) d2 by blast
      have w1': "isRoundComplete (round_games d s WildCard) \<longrightarrow> step1_written W3 d s"
        using w1 W3(2) by (blast intro: step1_written_mono)
      have w2: "isRoundComplete (round_games d s Divisional) \<longrightarrow> step2_written W3 d s"
        using W2(4) s2 W3(2) by (blast intro: step2_written_mono)
      show ?thesis unfolding r
        using W3(1,4) d3 w1' w2 by (intro exI[of _ W3] conjI allI impI) simp_all
    qed
  qed
qed

lemma row_inv_unwritten:
  assumes ri: "row_inv s W D C g g'" and W: "W (game_id g) = None"
      and nc: "\<not> cascaded D C (round g) \<or> season_id g \<noteq> s"
  shows "g' = g"
proof -
  from ri have k: "same_key g g'" by (simp add: row_inv_def)
  from ri W have m: "same_matchup g g'" by (simp add: row_inv_def)
  then have t: "same_teams g g'" by (simp add: same_matchup_def)
  from ri t have "same_result g g' \<or> (is_cleared g' \<and> season_id g = s \<and> cascaded D C (round g))"
    by (simp add: row_inv_def)
  with nc have r: "same_result g g'" by blast
  show ?thesis
  proof (rule game.equality)
    show "game_id g' = game_id g" "season_id g' = season_id g" "round g' = round g"
      "game_number g' = game_number g" "espn_event_id g' = espn_event_id g"
      using k by (simp_all add: same_key_def)
    show "team_home g' = team_home g" "team_away g' = team_away g" "seed_home g' = seed_home g"
      "seed_away g' = seed_away g" "is_actual_matchup g' = is_actual_matchup g"
      using m by (simp_all add: same_matchup_def same_teams_def)
    show "winner g' = winner g" "completed g' = completed g"
      using r by (simp_all add: same_result_def)
    show "game.more g' = game.more g" by simp
  qed
qed

lemma row_inv_wild_card:
  assumes "row_inv s W D C g g'" and "round g = WildCard"
  shows "g' = g"
proof (rule row_inv_unwritten[OF assms(1)])
  show "W (game_id g) = None" using assms by (cases "W (game_id g)") (simp_all add: row_inv_def)
  show "\<not> cascaded D C (round g) \<or> season_id g \<noteq> s" using assms(2) by (simp add: cascaded_def)
qed

lemma row_inv_other_season:
  assumes "row_inv s W D C g g'" and "season_id g \<noteq> s"
  shows "g' = g"
proof (rule row_inv_unwritten[OF assms(1)])
  show "W (game_id g) = None" using assms by (cases "W (game_id g)") (simp_all add: row_inv_def)
  show "\<not> cascaded D C (round g) \<or> season_id g \<noteq> s" using assms(2) by simp
qed

lemma row_inv_round: "row_inv s W D C g g' \<Longrightarrow> round g' = round g"
  by (simp add: row_inv_def same_key_def)

lemma filter_unchanged:
  assumes "list_all2 R xs ys"
      and "\<And>x y. x \<in> set xs \<Longrightarrow> R x y \<Longrightarrow> P y = P x \<and> (P x \<longrightarrow> y = x)"
  shows "filter P ys = filter P xs"
  using assms
proof (induction rule: list_all2_induct)
  case Nil
  then show ?case by simp
next
  case (Cons x xs y ys)
  have "P y = P x \<and> (P x \<longrightarrow> y = x)" using Cons.prems[of x y] Cons.hyps(1) by simp
  moreover have "filter P ys = filter P xs"
  proof (rule Cons.IH)
    fix a b assume "a \<in> set xs" "R a b"
    then show "P b = P a \<and> (P a \<longrightarrow> b = a)" using Cons.prems[of a b] by simp
  qed
  ultimately show ?case by auto
qed

lemma engine_inv_rows:
  "engine_inv s W d0 d \<Longrightarrow>
   list_all2 (row_inv s W (teams_changed s Divisional (games d0) (games d))
                          (teams_changed s Conference (games d0) (games d))) (games d0) (games d)"
  by (simp add: engine_inv_def)

lemma same_ids:
  "list_all2 (\<lambda>g g'. game_id g' = game_id g) xs ys \<Longrightarrow> map game_id ys = map game_id xs"
  by (induction rule: list_all2_induct) auto

section \<open>The claims about the re-seeding engine\<close>

text \<open>
  Claim C10. Every run of the re-seeding engine, whether it returns or throws, leaves every
  wild-card game as it was: the rows of round wild_card after reseedPlayoffBracket are the
  rows before it (teams, seeds, winner, completed and is_actual_matchup included). Ids are
  the primary key of the games table.
\<close>

theorem reseed_keeps_wild_card:
  assumes "distinct (map game_id (games d))"
  shows "filter (\<lambda>g. round g = WildCard) (games (final (reseedPlayoffBracket d s)))
       = filter (\<lambda>g. round g = WildCard) (games d)"
proof -
  from reseed_inv[OF assms, of s] obtain W where
    "engine_inv s W d (final (reseedPlayoffBracket d s))" by (elim exE conjE) (rule that)
  from engine_inv_rows[OF this] show ?thesis
  proof (rule filter_unchanged)
    fix x y assume ri: "row_inv s W (teams_changed s Divisional (games d) (games (final (reseedPlayoffBracket d s))))
       (teams_changed s Conference (games d) (games (final (reseedPlayoffBracket d s)))) x y"
    show "(round y = WildCard) = (round x = WildCard) \<and> (round x = WildCard \<longrightarrow> y = x)"
      using row_inv_round[OF ri] row_inv_wild_card[OF ri] by simp
  qed
qed

theorem reseed_keeps_wild_card_witness:
  "distinct (map game_id (games rewritten_db))
   \<and> filter (\<lambda>g. round g = WildCard) (games (final (reseedPlayoffBracket rewritten_db 1)))
     = filter (\<lambda>g. round g = WildCard) (games rewritten_db)"
proof -
  have d: "distinct (map game_id (games rewritten_db))" by code_simp
  from reseed_keeps_wild_card[OF d, of 1] d show ?thesis by simp
qed

text \<open>
  Claim C7. When at least one wild-card game of the season lacks completed = true with a
  non-null winner, a run of the re-seeding engine changes no divisional game of either
  conference: the divisional rows after the run are the rows before it, so placeholders keep
  their TBD teams, null seeds and is_actual_matchup = false.
\<close>

theorem partial_wild_card_keeps_divisional:
  assumes dist: "distinct (map game_id (games d))"
      and part: "\<exists>g \<in> set (getGamesBySeason d s). round g = WildCard \<and> \<not> (completed g \<and> winner g \<noteq> None)"
  shows "filter (\<lambda>g. round g = Divisional) (games (final (reseedPlayoffBracket d s)))
       = filter (\<lambda>g. round g = Divisional) (games d)"
proof -
  let ?d' = "final (reseedPlayoffBracket d s)"
  from part have gate: "\<not> isRoundComplete (round_games d s WildCard)"
    by (auto simp: isRoundComplete_def round_games_def list_all_iff truthy_def)
  from reseed_inv[OF dist, of s] obtain W where
    inv: "engine_inv s W d ?d'" and
    dom0: "dom W \<subseteq> game_id ` {g \<in> set (round_games d s Divisional). isRoundComplete (round_games d s WildCard)}
                   \<union> game_id ` {g \<in> set (round_games d s Conference). isRoundComplete (round_games d s Divisional)}
                   \<union> game_id ` {g \<in> set (games d). round g = SuperBowl}"
    by (elim exE conjE) (rule that)
  have "{g \<in> set (round_games d s Divisional). isRoundComplete (round_games d s WildCard)} = {}"
    using gate by simp
  with dom0 have
    dom: "dom W \<subseteq> game_id ` {g \<in> set (round_games d s Conference). isRoundComplete (round_games d s Divisional)}
                   \<union> game_id ` {g \<in> set (games d). round g = SuperBowl}"
    by simp
  have un: "W (game_id g) = None" if g: "g \<in> set (games d)" "round g = Divisional" for g
  proof (rule ccontr)
    assume "W (game_id g) \<noteq> None"
    then have "game_id g \<in> dom W" by (metis domIff)
    with dom have "game_id g \<in> game_id ` {g \<in> set (round_games d s Conference). isRoundComplete (round_games d s Divisional)}
                   \<union> game_id ` {g \<in> set (games d). round g = SuperBowl}"
      by (rule subsetD)
    then obtain h where "h \<in> set (round_games d s Conference) \<or> (h \<in> set (games d) \<and> round h = SuperBowl)"
      and hid: "game_id g = game_id h"
      by blast
    then have h: "h \<in> set (games d)" "round h \<noteq> Divisional" "game_id g = game_id h"
      by (auto dest: round_games_sub)
    with dist g have "g = h" by (auto intro: distinct_id_eq)
    with g h show False by simp
  qed
  from engine_inv_rows[OF inv] show ?thesis
  proof (rule filter_unchanged)
    fix x y assume x: "x \<in> set (games d)" and ri: "row_inv s W (teams_changed s Divisional (games d) (games ?d'))
       (teams_changed s Conference (games d) (games ?d')) x y"
    have "y = x" if r: "round x = Divisional"
    proof (rule row_inv_unwritten[OF ri])
      show "W (game_id x) = None" using x r by (rule un)
      show "\<not> cascaded (teams_changed s Divisional (games d) (games ?d'))
              (teams_changed s Conference (games d) (games ?d')) (round x) \<or> season_id x \<noteq> s"
        using r by (simp add: cascaded_def)
    qed
    then show "(round y = Divisional) = (round x = Divisional) \<and> (round x = Divisional \<longrightarrow> y = x)"
      using row_inv_round[OF ri] by simp
  qed
qed

theorem partial_wild_card_keeps_divisional_witness:
  "distinct (map game_id (games partial_db))
   \<and> list_ex (\<lambda>g. round g = WildCard \<and> \<not> (completed g \<and> winner g \<noteq> None)) (getGamesBySeason partial_db 1)
   \<and> filter (\<lambda>g. round g = Divisional) (games (final (reseedPlayoffBracket partial_db 1)))
     = filter (\<lambda>g. round g = Divisional) (games partial_db)
   \<and> filter (\<lambda>g. round g = Divisional) (games partial_db)
     = [mk_placeholder 7 Divisional 1, mk_placeholder 8 Divisional 2, mk_placeholder 9 Divisional 3,
        mk_placeholder 10 Divisional 4]"
proof -
  have d: "distinct (map game_id (games partial_db))" by code_simp
  have p: "list_ex (\<lambda>g. round g = WildCard \<and> \<not> (completed g \<and> winner g \<noteq> None)) (getGamesBySeason partial_db 1)"
    by code_simp
  then have p': "\<exists>g \<in> set (getGamesBySeason partial_db 1). round g = WildCard \<and> \<not> (completed g \<and> winner g \<noteq> None)"
    by (simp add: list_ex_iff)
  have e: "filter (\<lambda>g. round g = Divisional) (games partial_db)
     = [mk_placeholder 7 Divisional 1, mk_placeholder 8 Divisional 2, mk_placeholder 9 Divisional 3,
        mk_placeholder 10 Divisional 4]" by code_simp
  from partial_wild_card_keeps_divisional[OF d p'] d p e show ?thesis by simp
qed

text \<open>
  Claim C3. After every run of the re-seeding engine (the rows keep their ids and positions):
  if the home/away pair of a divisional game of the season has changed, every conference-round
  game and every final of the season has winner = null and completed = false; if the pair of a
  conference-round game has changed, every final of the season has.
\<close>

theorem matchup_change_clears_downstream:
  assumes dist: "distinct (map game_id (games d))"
  shows "map game_id (games (final (reseedPlayoffBracket d s))) = map game_id (games d)
       \<and> (teams_changed s Divisional (games d) (games (final (reseedPlayoffBracket d s))) \<longrightarrow>
            round_cleared s Conference (games (final (reseedPlayoffBracket d s))) \<and>
            round_cleared s SuperBowl (games (final (reseedPlayoffBracket d s))))
       \<and> (teams_changed s Conference (games d) (games (final (reseedPlayoffBracket d s))) \<longrightarrow>
            round_cleared s SuperBowl (games (final (reseedPlayoffBracket d s))))"
proof -
  let ?d' = "final (reseedPlayoffBracket d s)"
  from reseed_inv[OF dist, of s] obtain W where inv: "engine_inv s W d ?d'"
    by (elim exE conjE) (rule that)
  have "list_all2 (\<lambda>g g'. game_id g' = game_id g) (games d) (games ?d')"
    using engine_inv_rows[OF inv] by (rule list_all2_mono) (simp add: row_inv_def same_key_def)
  then have "map game_id (games ?d') = map game_id (games d)" by (rule same_ids)
  moreover from inv have
    "teams_changed s Divisional (games d) (games ?d') \<longrightarrow>
       round_cleared s Conference (games ?d') \<and> round_cleared s SuperBowl (games ?d')"
    by (simp add: engine_inv_def)
  moreover from inv have
    "teams_changed s Conference (games d) (games ?d') \<longrightarrow> round_cleared s SuperBowl (games ?d')"
    by (simp add: engine_inv_def)
  ultimately show ?thesis by (intro conjI)
qed

theorem matchup_change_clears_downstream_witness:
  "distinct (map game_id (games rewritten_db))
   \<and> teams_changed 1 Divisional (games rewritten_db) (games (final (reseedPlayoffBracket rewritten_db 1)))
   \<and> round_cleared 1 Conference (games (final (reseedPlayoffBracket rewritten_db 1)))
   \<and> round_cleared 1 SuperBowl (games (final (reseedPlayoffBracket rewritten_db 1)))"
proof -
  have d: "distinct (map game_id (games rewritten_db))" by code_simp
  have c: "teams_changed 1 Divisional (games rewritten_db) (games (final (reseedPlayoffBracket rewritten_db 1)))"
    by code_simp
  from matchup_change_clears_downstream[OF d, of 1] c d show ?thesis by simp
qed

end
